theory Spec2Isabelle
  imports Complex_Main "HOL-Library.Word"
begin

section \<open>The event queue of src/lib/base/CEventQueue.cpp\<close>

text \<open>
  A shallow embedding of \<^verbatim>\<open>CEventQueue\<close>. Every member function becomes a function
  that takes the queue object and returns the value of the call together with the
  updated object. The mutex (\<^verbatim>\<open>CArchMutexLock\<close>) and the log macro are left out: the
  model is sequential. A \<^verbatim>\<open>double\<close> is a real number; infinities and NaN are outside
  the model. The functions of the timers come twice: with exact arithmetic, and with
  the rounded arithmetic of doubles as a parameter (the names that end in \<open>_fp\<close>), of
  which \<open>binary64_arith\<close>, rounding to the nearest double, is the one of the machine.
  Pointers are natural numbers, with \<open>NULL = 0\<close>.
\<close>

subsection \<open>Data\<close>

type_synonym UInt32 = "32 word"
type_synonym ptr = nat

definition NULL :: ptr where
  "NULL = 0"

text \<open>
  Modelled from the spec: \<^verbatim>\<open>CEvent.h\<close> is not among the sources. An event type is a
  non-negative integer; the reserved ones are Unknown = 0, Quit, System, Timer and Last,
  in this order, and the types registered at run time start at Last.
\<close>

type_synonym Type = nat

definition kUnknown :: Type where
  "kUnknown = 0"

definition kQuit :: Type where
  "kQuit = 1"

definition kSystem :: Type where
  "kSystem = 2"

definition kTimer :: Type where
  "kTimer = 3"

definition kLast :: Type where
  "kLast = 4"

text \<open>
  The payload pointer of an event: null, a pointer of the application, or the address
  of the queue's own member \<^verbatim>\<open>m_timerEvent\<close>.
\<close>

datatype data_ptr = NoData | UserData nat | TimerEventData

record CEvent =
  ev_type :: Type
  ev_target :: ptr
  ev_data :: data_ptr

text \<open>The default constructor \<^verbatim>\<open>CEvent()\<close>, and \<^verbatim>\<open>CEvent(type, target, data)\<close>.\<close>

definition CEvent_default :: CEvent where
  "CEvent_default = \<lparr>ev_type = kUnknown, ev_target = NULL, ev_data = NoData\<rparr>"

definition CEvent3 :: "Type \<Rightarrow> ptr \<Rightarrow> data_ptr \<Rightarrow> CEvent" where
  "CEvent3 ty tg d = \<lparr>ev_type = ty, ev_target = tg, ev_data = d\<rparr>"

record CTimerEvent =
  te_timer :: ptr
  te_count :: UInt32

text \<open>\<^verbatim>\<open>CEventQueue::CTimer\<close>: the fields \<^verbatim>\<open>m_timer\<close>, \<^verbatim>\<open>m_timeout\<close>, \<^verbatim>\<open>m_target\<close>,
  \<^verbatim>\<open>m_oneShot\<close> and \<^verbatim>\<open>m_time\<close> (the remaining time).\<close>

record CTimer =
  t_timer :: ptr
  t_timeout :: real
  t_target :: ptr
  t_oneShot :: bool
  t_time :: real

text \<open>\<^verbatim>\<open>IEventQueueBuffer::Type\<close>, the verdict of the buffer's \<^verbatim>\<open>getEvent\<close>.\<close>

datatype BufferType = BufNone | BufSystem | BufUser

text \<open>
  The buffer is the polymorphic seam of the queue (\<^verbatim>\<open>IEventQueueBuffer\<close>); its classes
  are not among the sources. A buffer object is a value of an arbitrary type \<open>'b\<close> and
  its virtual functions are the fields of this record. A call that changes the buffer
  returns the new buffer. \<open>buf_waitForEvent now timeout b\<close> blocks: it returns the
  reading of the system clock at the moment it wakes up; the clock does not move
  otherwise. \<open>buf_getEvent\<close> takes the caller's event and returns the verdict, the
  event (filled in for a system event) and the data id (meaningful for a user event).
  \<open>CSimpleEventQueueBuffer\<close> is the result of \<^verbatim>\<open>new CSimpleEventQueueBuffer\<close>.
\<close>

record 'b IEventQueueBuffer =
  buf_isEmpty :: "'b \<Rightarrow> bool"
  buf_waitForEvent :: "real \<Rightarrow> real \<Rightarrow> 'b \<Rightarrow> real \<times> 'b"
  buf_getEvent :: "CEvent \<Rightarrow> 'b \<Rightarrow> BufferType \<times> CEvent \<times> UInt32 \<times> 'b"
  buf_addEvent :: "UInt32 \<Rightarrow> 'b \<Rightarrow> bool \<times> 'b"
  buf_newTimer :: "real \<Rightarrow> bool \<Rightarrow> 'b \<Rightarrow> ptr \<times> 'b"
  buf_deleteTimer :: "ptr \<Rightarrow> 'b \<Rightarrow> 'b"
  CSimpleEventQueueBuffer :: "'b"

text \<open>
  The queue object. \<open>m_time\<close> is the member stopwatch, kept as the clock reading at its
  last reset (modelled from the spec: a monotonic stopwatch yielding the seconds elapsed
  since the last reset; \<^verbatim>\<open>CStopwatch.h\<close> is not among the sources). \<open>m_timerQueue\<close> is
  the priority queue of timers, see below. The last three fields are not members: they
  record, in order, the calls the queue makes to code outside it, \<^verbatim>\<open>CEvent::deleteData\<close>,
  \<^verbatim>\<open>job->run(event)\<close> and \<^verbatim>\<open>delete job\<close>.
\<close>

record 'b CEventQueue =
  m_nextType :: Type
  m_typeMap :: "Type \<rightharpoonup> string"
  m_buffer :: 'b
  m_events :: "UInt32 \<rightharpoonup> CEvent"
  m_oldEventIDs :: "UInt32 list"
  m_time :: real
  m_timers :: "ptr set"
  m_timerQueue :: "CTimer list"
  m_timerEvent :: CTimerEvent
  m_handlers :: "(Type \<times> ptr) \<rightharpoonup> ptr"
  deleteData_calls :: "CEvent list"
  run_calls :: "(ptr \<times> CEvent) list"
  delete_job_calls :: "ptr list"

text \<open>The constructor, run when the system clock reads \<open>now\<close>.\<close>

definition CEventQueue_new :: "'b IEventQueueBuffer \<Rightarrow> real \<Rightarrow> 'b CEventQueue" where
  "CEventQueue_new ops now =
     \<lparr>m_nextType = kLast, m_typeMap = Map.empty,
      m_buffer = CSimpleEventQueueBuffer ops,
      m_events = Map.empty, m_oldEventIDs = [],
      m_time = now, m_timers = {}, m_timerQueue = [],
      m_timerEvent = \<lparr>te_timer = NULL, te_count = 0\<rparr>,
      m_handlers = Map.empty,
      deleteData_calls = [], run_calls = [], delete_job_calls = []\<rparr>"

subsection \<open>The type registry\<close>

text \<open>\<^verbatim>\<open>std::map::insert\<close> keeps the old value of a key that is already there.\<close>

definition map_insert :: "('k \<rightharpoonup> 'v) \<Rightarrow> 'k \<Rightarrow> 'v \<Rightarrow> ('k \<rightharpoonup> 'v)" where
  "map_insert m k v = (case m k of None \<Rightarrow> m(k \<mapsto> v) | Some _ \<Rightarrow> m)"

definition registerType :: "string \<Rightarrow> 'b CEventQueue \<Rightarrow> Type \<times> 'b CEventQueue" where
  "registerType name q =
     (m_nextType q,
      q\<lparr>m_typeMap := map_insert (m_typeMap q) (m_nextType q) name,
        m_nextType := m_nextType q + 1\<rparr>)"

text \<open>
  \<^verbatim>\<open>registerTypeOnce(type, name)\<close> takes \<^verbatim>\<open>type\<close> by reference: the result is the
  returned value, the new value of the caller's variable and the queue.
\<close>

definition registerTypeOnce ::
  "Type \<Rightarrow> string \<Rightarrow> 'b CEventQueue \<Rightarrow> Type \<times> Type \<times> 'b CEventQueue" where
  "registerTypeOnce type name q =
     (if type = kUnknown then
        (m_nextType q, m_nextType q,
         q\<lparr>m_typeMap := map_insert (m_typeMap q) (m_nextType q) name,
           m_nextType := m_nextType q + 1\<rparr>)
      else (type, type, q))"

definition getTypeName :: "Type \<Rightarrow> 'b CEventQueue \<Rightarrow> string" where
  "getTypeName type q =
     (if type = kUnknown then ''nil''
      else if type = kQuit then ''quit''
      else if type = kSystem then ''system''
      else if type = kTimer then ''timer''
      else (case m_typeMap q type of None \<Rightarrow> ''<unknown>'' | Some name \<Rightarrow> name))"

subsection \<open>The event-data table\<close>

text \<open>
  \<^verbatim>\<open>m_events\<close> is a \<^verbatim>\<open>std::map\<close> from \<^verbatim>\<open>UInt32\<close> to events, \<^verbatim>\<open>m_oldEventIDs\<close> a vector
  used as a stack whose top is its last element. The size of the table is cast to
  \<^verbatim>\<open>UInt32\<close>, so it is taken modulo \<open>2 ^ 32\<close>.
\<close>

definition saveEvent :: "CEvent \<Rightarrow> 'b CEventQueue \<Rightarrow> UInt32 \<times> 'b CEventQueue" where
  "saveEvent event q =
     (if m_oldEventIDs q \<noteq> [] then
        (let id = last (m_oldEventIDs q)
         in (id, q\<lparr>m_oldEventIDs := butlast (m_oldEventIDs q),
                   m_events := (m_events q)(id \<mapsto> event)\<rparr>))
      else
        (let id = (of_nat (card (dom (m_events q))) :: UInt32)
         in (id, q\<lparr>m_events := (m_events q)(id \<mapsto> event)\<rparr>)))"

definition removeEvent :: "UInt32 \<Rightarrow> 'b CEventQueue \<Rightarrow> CEvent \<times> 'b CEventQueue" where
  "removeEvent eventID q =
     (case m_events q eventID of
        None \<Rightarrow> (CEvent_default, q)
      | Some event \<Rightarrow>
          (event, q\<lparr>m_events := (m_events q)(eventID := None),
                    m_oldEventIDs := m_oldEventIDs q @ [eventID]\<rparr>))"

text \<open>
  \<^verbatim>\<open>adoptBuffer(buffer)\<close>; \<open>None\<close> is the null pointer. The loop over the table runs
  in the order of the keys, as the iteration of a \<^verbatim>\<open>std::map\<close> does. The old buffer
  is deleted; the model keeps no record of that.
\<close>

definition adoptBuffer :: "'b IEventQueueBuffer \<Rightarrow> 'b option \<Rightarrow> 'b CEventQueue \<Rightarrow> 'b CEventQueue" where
  "adoptBuffer ops buffer q =
     q\<lparr>deleteData_calls :=
         deleteData_calls q @
         map (\<lambda>i. the (m_events q i)) (sorted_list_of_set (dom (m_events q))),
       m_events := Map.empty,
       m_oldEventIDs := [],
       m_buffer := (case buffer of None \<Rightarrow> CSimpleEventQueueBuffer ops | Some b \<Rightarrow> b)\<rparr>"

definition addEvent :: "'b IEventQueueBuffer \<Rightarrow> CEvent \<Rightarrow> 'b CEventQueue \<Rightarrow> 'b CEventQueue" where
  "addEvent ops event q =
     (if ev_type event = kUnknown \<or> ev_type event = kSystem \<or> ev_type event = kTimer
      then q
      else
        (let (eventID, q1) = saveEvent event q;
             (ok, b) = buf_addEvent ops eventID (m_buffer q1);
             q2 = q1\<lparr>m_buffer := b\<rparr>
         in if \<not> ok then
              (let (dropped, q3) = removeEvent eventID q2
               in q3\<lparr>deleteData_calls := deleteData_calls q3 @ [event]\<rparr>)
            else q2))"

text \<open>The interrupt handler: it adds a quit event to the queue.\<close>

definition interrupt :: "'b IEventQueueBuffer \<Rightarrow> 'b CEventQueue \<Rightarrow> 'b CEventQueue" where
  "interrupt ops q = addEvent ops (CEvent3 kQuit NULL NoData) q"

subsection \<open>The handler table\<close>

definition doAdoptHandler :: "Type \<Rightarrow> ptr \<Rightarrow> ptr \<Rightarrow> 'b CEventQueue \<Rightarrow> 'b CEventQueue" where
  "doAdoptHandler type target handler q =
     (let job = (case m_handlers q (type, target) of None \<Rightarrow> NULL | Some j \<Rightarrow> j)
      in q\<lparr>delete_job_calls := delete_job_calls q @ [job],
           m_handlers := (m_handlers q)((type, target) \<mapsto> handler)\<rparr>)"

definition doOrphanHandler :: "Type \<Rightarrow> ptr \<Rightarrow> 'b CEventQueue \<Rightarrow> ptr \<times> 'b CEventQueue" where
  "doOrphanHandler type target q =
     (case m_handlers q (type, target) of
        Some handler \<Rightarrow> (handler, q\<lparr>m_handlers := (m_handlers q)((type, target) := None)\<rparr>)
      | None \<Rightarrow> (NULL, q))"

text \<open>The two overloads of \<^verbatim>\<open>adoptHandler\<close>; a failed \<^verbatim>\<open>assert\<close> is \<open>None\<close>.\<close>

definition adoptHandler :: "ptr \<Rightarrow> ptr \<Rightarrow> 'b CEventQueue \<Rightarrow> 'b CEventQueue" where
  "adoptHandler target handler q = doAdoptHandler kUnknown target handler q"

definition adoptHandler_typed ::
  "Type \<Rightarrow> ptr \<Rightarrow> ptr \<Rightarrow> 'b CEventQueue \<Rightarrow> 'b CEventQueue option" where
  "adoptHandler_typed type target handler q =
     (if type \<noteq> kUnknown then Some (doAdoptHandler type target handler q) else None)"

text \<open>\<^verbatim>\<open>getHandler\<close> is a \<^verbatim>\<open>const\<close> member function: it returns the queue as it got it.\<close>

definition getHandler :: "Type \<Rightarrow> ptr \<Rightarrow> 'b CEventQueue \<Rightarrow> ptr \<times> 'b CEventQueue" where
  "getHandler type target q =
     (case m_handlers q (type, target) of
        Some job \<Rightarrow> (job, q)
      | None \<Rightarrow>
          (case m_handlers q (kUnknown, target) of
             Some job \<Rightarrow> (job, q)
           | None \<Rightarrow> (NULL, q)))"

text \<open>\<^verbatim>\<open>job->run(event)\<close> is recorded in \<open>run_calls\<close>; what the handler does is outside
  the queue.\<close>

definition dispatchEvent :: "CEvent \<Rightarrow> 'b CEventQueue \<Rightarrow> bool \<times> 'b CEventQueue" where
  "dispatchEvent event q =
     (let target = ev_target event;
          (job, q1) = getHandler (ev_type event) target q
      in if job \<noteq> NULL then (True, q1\<lparr>run_calls := run_calls q1 @ [(job, event)]\<rparr>)
         else (False, q1))"

subsection \<open>Timers\<close>

text \<open>
  Modelled from the spec: \<^verbatim>\<open>CPriorityQueue.h\<close> is not among the sources. The timer
  queue is an ordered collection of timer records keyed by remaining time, smallest
  first: a list kept in ascending order of \<open>t_time\<close>. \<open>pq_top\<close> and \<open>pq_pop\<close> are
  called on a non-empty queue only, as in the code.
\<close>

definition pq_push :: "CTimer \<Rightarrow> CTimer list \<Rightarrow> CTimer list" where
  "pq_push t ts = insort_key t_time t ts"

definition pq_top :: "CTimer list \<Rightarrow> CTimer" where
  "pq_top ts = hd ts"

definition pq_pop :: "CTimer list \<Rightarrow> CTimer list" where
  "pq_pop ts = tl ts"

fun pq_erase :: "ptr \<Rightarrow> CTimer list \<Rightarrow> CTimer list" where
  "pq_erase timer [] = []"
| "pq_erase timer (t # ts) = (if t_timer t = timer then ts else t # pq_erase timer ts)"

text \<open>The constructor of \<^verbatim>\<open>CTimer\<close>, \<^verbatim>\<open>reset\<close> and \<^verbatim>\<open>operator-=\<close>.\<close>

definition CTimer_new :: "ptr \<Rightarrow> real \<Rightarrow> real \<Rightarrow> ptr \<Rightarrow> bool \<Rightarrow> CTimer" where
  "CTimer_new timer timeout initialTime target oneShot =
     \<lparr>t_timer = timer, t_timeout = timeout, t_target = target, t_oneShot = oneShot,
      t_time = initialTime\<rparr>"

definition CTimer_reset :: "CTimer \<Rightarrow> CTimer" where
  "CTimer_reset t = t\<lparr>t_time := t_timeout t\<rparr>"

definition CTimer_minus :: "real \<Rightarrow> CTimer \<Rightarrow> CTimer" where
  "CTimer_minus dt t = t\<lparr>t_time := t_time t - dt\<rparr>"

text \<open>
  \<^verbatim>\<open>static_cast<UInt32>\<close> of a \<^verbatim>\<open>double\<close> drops the fraction. C++ defines the result
  only when the truncated value fits the type; outside that range the model reduces it
  modulo \<open>2 ^ 32\<close>.
\<close>

definition static_cast_UInt32 :: "real \<Rightarrow> UInt32" where
  "static_cast_UInt32 x = word_of_int (if 0 \<le> x then \<lfloor>x\<rfloor> else \<lceil>x\<rceil>)"

definition fillEvent :: "CTimer \<Rightarrow> CTimerEvent \<Rightarrow> CTimerEvent" where
  "fillEvent t event =
     (let event1 = event\<lparr>te_timer := t_timer t, te_count := 0\<rparr>
      in if t_time t \<le> 0
         then event1\<lparr>te_count := static_cast_UInt32 ((t_timeout t - t_time t) / t_timeout t)\<rparr>
         else event1)"

text \<open>
  \<^verbatim>\<open>hasTimerExpired(event)\<close>, called when the system clock reads \<open>now\<close>. The event is
  passed by reference: the result holds its value after the call.
\<close>

definition hasTimerExpired ::
  "real \<Rightarrow> CEvent \<Rightarrow> 'b CEventQueue \<Rightarrow> bool \<times> CEvent \<times> 'b CEventQueue" where
  "hasTimerExpired now event q =
     (if m_timerQueue q = [] then (False, event, q)
      else
        (let time = now - m_time q;
             q1 = q\<lparr>m_time := now\<rparr>;
             q2 = q1\<lparr>m_timerQueue := map (CTimer_minus time) (m_timerQueue q1)\<rparr>
         in if t_time (pq_top (m_timerQueue q2)) > 0 then (False, event, q2)
            else
              (let timer = pq_top (m_timerQueue q2);
                   q3 = q2\<lparr>m_timerQueue := pq_pop (m_timerQueue q2)\<rparr>;
                   q4 = q3\<lparr>m_timerEvent := fillEvent timer (m_timerEvent q3)\<rparr>;
                   event1 = CEvent3 kTimer (t_target timer) TimerEventData;
                   timer1 = CTimer_reset timer
               in if \<not> t_oneShot timer1
                  then (True, event1, q4\<lparr>m_timerQueue := pq_push timer1 (m_timerQueue q4)\<rparr>)
                  else (True, event1, q4))))"

text \<open>\<^verbatim>\<open>getNextTimerTimeout\<close> and \<^verbatim>\<open>isEmpty\<close> are \<^verbatim>\<open>const\<close> member functions.\<close>

definition getNextTimerTimeout :: "'b CEventQueue \<Rightarrow> real \<times> 'b CEventQueue" where
  "getNextTimerTimeout q =
     (if m_timerQueue q = [] then (- 1, q)
      else if t_time (pq_top (m_timerQueue q)) \<le> 0 then (0, q)
      else (t_time (pq_top (m_timerQueue q)), q))"

definition isEmpty :: "'b IEventQueueBuffer \<Rightarrow> 'b CEventQueue \<Rightarrow> bool \<times> 'b CEventQueue" where
  "isEmpty ops q =
     (if buf_isEmpty ops (m_buffer q)
      then (let (timerTimeout, q1) = getNextTimerTimeout q in (timerTimeout \<noteq> 0, q1))
      else (False, q))"

text \<open>
  \<^verbatim>\<open>newTimer\<close>, \<^verbatim>\<open>newOneShotTimer\<close> and \<^verbatim>\<open>deleteTimer\<close>. A failed \<^verbatim>\<open>assert\<close> is
  \<open>None\<close>.
\<close>

definition newTimer ::
  "'b IEventQueueBuffer \<Rightarrow> real \<Rightarrow> real \<Rightarrow> ptr \<Rightarrow> 'b CEventQueue \<Rightarrow> (ptr \<times> 'b CEventQueue) option" where
  "newTimer ops now duration target q =
     (if \<not> duration > 0 then None
      else
        (let (timer, b) = buf_newTimer ops duration False (m_buffer q);
             target1 = (if target = NULL then timer else target);
             q1 = q\<lparr>m_buffer := b, m_timers := insert timer (m_timers q)\<rparr>
         in Some (timer,
              q1\<lparr>m_timerQueue :=
                   pq_push (CTimer_new timer duration (duration + (now - m_time q1)) target1 False)
                     (m_timerQueue q1)\<rparr>)))"

definition newOneShotTimer ::
  "'b IEventQueueBuffer \<Rightarrow> real \<Rightarrow> real \<Rightarrow> ptr \<Rightarrow> 'b CEventQueue \<Rightarrow> (ptr \<times> 'b CEventQueue) option" where
  "newOneShotTimer ops now duration target q =
     (if \<not> duration > 0 then None
      else
        (let (timer, b) = buf_newTimer ops duration True (m_buffer q);
             target1 = (if target = NULL then timer else target);
             q1 = q\<lparr>m_buffer := b, m_timers := insert timer (m_timers q)\<rparr>
         in Some (timer,
              q1\<lparr>m_timerQueue :=
                   pq_push (CTimer_new timer duration (duration + (now - m_time q1)) target1 True)
                     (m_timerQueue q1)\<rparr>)))"

definition deleteTimer :: "'b IEventQueueBuffer \<Rightarrow> ptr \<Rightarrow> 'b CEventQueue \<Rightarrow> 'b CEventQueue" where
  "deleteTimer ops timer q =
     q\<lparr>m_timerQueue := pq_erase timer (m_timerQueue q),
       m_timers := m_timers q - {timer},
       m_buffer := buf_deleteTimer ops timer (m_buffer q)\<rparr>"

subsection \<open>Timers in double arithmetic\<close>

text \<open>
  The sum, the difference and the quotient of two doubles are rounded. \<open>double_arith\<close>
  holds the three operations as the machine computes them, on doubles taken as real
  numbers; \<open>exact_arith\<close> does not round, and \<open>rounded_arith rnd\<close> rounds the exact
  result with \<open>rnd\<close>.
\<close>

record double_arith =
  dadd :: "real \<Rightarrow> real \<Rightarrow> real"
  dsub :: "real \<Rightarrow> real \<Rightarrow> real"
  ddiv :: "real \<Rightarrow> real \<Rightarrow> real"

definition exact_arith :: double_arith where
  "exact_arith = \<lparr>dadd = (\<lambda>x y. x + y), dsub = (\<lambda>x y. x - y), ddiv = (\<lambda>x y. x / y)\<rparr>"

definition rounded_arith :: "(real \<Rightarrow> real) \<Rightarrow> double_arith" where
  "rounded_arith rnd =
     \<lparr>dadd = (\<lambda>x y. rnd (x + y)), dsub = (\<lambda>x y. rnd (x - y)), ddiv = (\<lambda>x y. rnd (x / y))\<rparr>"

text \<open>
  What the properties below need of the arithmetic: the rounded difference grows with
  its first argument, the difference of a number and a smaller one is not negative, and
  the quotient of a non-negative and a positive number is not negative. Rounding to
  nearest has these properties.
\<close>

definition rounding_ok :: "double_arith \<Rightarrow> bool" where
  "rounding_ok ar \<longleftrightarrow>
     (\<forall>x y d. x \<le> y \<longrightarrow> dsub ar x d \<le> dsub ar y d) \<and>
     (\<forall>x y. y \<le> x \<longrightarrow> 0 \<le> dsub ar x y) \<and>
     (\<forall>x y. 0 \<le> x \<and> 0 < y \<longrightarrow> 0 \<le> ddiv ar x y)"

text \<open>
  The type \<^verbatim>\<open>double\<close> is the binary64 format of IEEE 754, and the machine rounds each
  result to the nearest double, a tie to the one with an even significand.
  \<open>round_even\<close> is that rounding to an integer. A double other than zero is a multiple,
  of magnitude below \<open>2 ^ 53\<close>, of a power of two, its unit in the last place:
  \<open>2 ^ (e - 52)\<close> where \<open>2 ^ e\<close> is the largest power of two not above the magnitude,
  and \<open>e\<close> is at least -1022. \<open>binary64 x\<close> is the double nearest to \<open>x\<close>. The format has
  no double of magnitude \<open>2 ^ 1024\<close> and beyond; the model has, so it is the machine
  on results below that only. The times of a timer, in seconds, are far below.
\<close>

definition round_even :: "real \<Rightarrow> int" where
  "round_even x =
     (if x - of_int \<lfloor>x\<rfloor> < 1 / 2 then \<lfloor>x\<rfloor>
      else if 1 / 2 < x - of_int \<lfloor>x\<rfloor> then \<lfloor>x\<rfloor> + 1
      else if even \<lfloor>x\<rfloor> then \<lfloor>x\<rfloor> else \<lfloor>x\<rfloor> + 1)"

definition binary64 :: "real \<Rightarrow> real" where
  "binary64 x =
     (if x = 0 then 0
      else 2 powr (of_int (max \<lfloor>log 2 \<bar>x\<bar>\<rfloor> (- 1022)) - 52) *
           of_int (round_even (x / 2 powr (of_int (max \<lfloor>log 2 \<bar>x\<bar>\<rfloor> (- 1022)) - 52))))"

definition binary64_arith :: double_arith where
  "binary64_arith = rounded_arith binary64"

text \<open>The exponent and the unit in the last place that \<open>binary64\<close> rounds to.\<close>

definition expo :: "real \<Rightarrow> int" where
  "expo x = max \<lfloor>log 2 \<bar>x\<bar>\<rfloor> (- 1022)"

definition ulp :: "real \<Rightarrow> real" where
  "ulp x = 2 powr (of_int (expo x) - 52)"


text \<open>
  \<^verbatim>\<open>CTimer::operator-=\<close>, \<^verbatim>\<open>CTimer::fillEvent\<close>, \<^verbatim>\<open>hasTimerExpired\<close>, \<^verbatim>\<open>newTimer\<close> and
  \<^verbatim>\<open>newOneShotTimer\<close> with the arithmetic \<open>ar\<close>: every \<^verbatim>\<open>+\<close>, \<^verbatim>\<open>-\<close> and \<^verbatim>\<open>/\<close> on
  doubles in the source is an operation of \<open>ar\<close>, the reading of the stopwatch
  included. With \<open>exact_arith\<close> they are the functions of the section before.
\<close>

definition CTimer_minus_fp :: "double_arith \<Rightarrow> real \<Rightarrow> CTimer \<Rightarrow> CTimer" where
  "CTimer_minus_fp ar dt t = t\<lparr>t_time := dsub ar (t_time t) dt\<rparr>"

definition fillEvent_fp :: "double_arith \<Rightarrow> CTimer \<Rightarrow> CTimerEvent \<Rightarrow> CTimerEvent" where
  "fillEvent_fp ar t event =
     (let event1 = event\<lparr>te_timer := t_timer t, te_count := 0\<rparr>
      in if t_time t \<le> 0
         then event1\<lparr>te_count :=
                static_cast_UInt32 (ddiv ar (dsub ar (t_timeout t) (t_time t)) (t_timeout t))\<rparr>
         else event1)"

definition hasTimerExpired_fp ::
  "double_arith \<Rightarrow> real \<Rightarrow> CEvent \<Rightarrow> 'b CEventQueue \<Rightarrow> bool \<times> CEvent \<times> 'b CEventQueue" where
  "hasTimerExpired_fp ar now event q =
     (if m_timerQueue q = [] then (False, event, q)
      else
        (let time = dsub ar now (m_time q);
             q1 = q\<lparr>m_time := now\<rparr>;
             q2 = q1\<lparr>m_timerQueue := map (CTimer_minus_fp ar time) (m_timerQueue q1)\<rparr>
         in if t_time (pq_top (m_timerQueue q2)) > 0 then (False, event, q2)
            else
              (let timer = pq_top (m_timerQueue q2);
                   q3 = q2\<lparr>m_timerQueue := pq_pop (m_timerQueue q2)\<rparr>;
                   q4 = q3\<lparr>m_timerEvent := fillEvent_fp ar timer (m_timerEvent q3)\<rparr>;
                   event1 = CEvent3 kTimer (t_target timer) TimerEventData;
                   timer1 = CTimer_reset timer
               in if \<not> t_oneShot timer1
                  then (True, event1, q4\<lparr>m_timerQueue := pq_push timer1 (m_timerQueue q4)\<rparr>)
                  else (True, event1, q4))))"

definition newTimer_fp ::
  "double_arith \<Rightarrow> 'b IEventQueueBuffer \<Rightarrow> real \<Rightarrow> real \<Rightarrow> ptr \<Rightarrow> 'b CEventQueue \<Rightarrow>
   (ptr \<times> 'b CEventQueue) option" where
  "newTimer_fp ar ops now duration target q =
     (if \<not> duration > 0 then None
      else
        (let (timer, b) = buf_newTimer ops duration False (m_buffer q);
             target1 = (if target = NULL then timer else target);
             q1 = q\<lparr>m_buffer := b, m_timers := insert timer (m_timers q)\<rparr>
         in Some (timer,
              q1\<lparr>m_timerQueue :=
                   pq_push (CTimer_new timer duration
                              (dadd ar duration (dsub ar now (m_time q1))) target1 False)
                     (m_timerQueue q1)\<rparr>)))"

definition newOneShotTimer_fp ::
  "double_arith \<Rightarrow> 'b IEventQueueBuffer \<Rightarrow> real \<Rightarrow> real \<Rightarrow> ptr \<Rightarrow> 'b CEventQueue \<Rightarrow>
   (ptr \<times> 'b CEventQueue) option" where
  "newOneShotTimer_fp ar ops now duration target q =
     (if \<not> duration > 0 then None
      else
        (let (timer, b) = buf_newTimer ops duration True (m_buffer q);
             target1 = (if target = NULL then timer else target);
             q1 = q\<lparr>m_buffer := b, m_timers := insert timer (m_timers q)\<rparr>
         in Some (timer,
              q1\<lparr>m_timerQueue :=
                   pq_push (CTimer_new timer duration
                              (dadd ar duration (dsub ar now (m_time q1))) target1 True)
                     (m_timerQueue q1)\<rparr>)))"

subsection \<open>Taking an event from the queue\<close>

text \<open>
  \<^verbatim>\<open>getEvent(event, timeout)\<close>. The \<^verbatim>\<open>while\<close> loop and the jump to \<^verbatim>\<open>retry\<close> are one
  recursion: every round starts with the test \<^verbatim>\<open>m_buffer->isEmpty()\<close>. The loop need
  not end (an infinite timeout and a buffer that stays empty), so the function counts
  its rounds down from \<open>fuel\<close> and returns \<open>None\<close> when none is left. \<open>start\<close> is the
  reading of the system clock when the local stopwatch started, \<open>now\<close> the reading at
  this round.
\<close>

fun getEvent_loop ::
  "nat \<Rightarrow> 'b IEventQueueBuffer \<Rightarrow> real \<Rightarrow> real \<Rightarrow> real \<Rightarrow> CEvent \<Rightarrow> 'b CEventQueue \<Rightarrow>
   (bool \<times> CEvent \<times> 'b CEventQueue) option" where
  "getEvent_loop 0 ops timeout start now event q = None"
| "getEvent_loop (Suc fuel) ops timeout start now event q =
     (if buf_isEmpty ops (m_buffer q) then
        (case hasTimerExpired now event q of
           (True, event1, q1) \<Rightarrow> Some (True, event1, q1)
         | (False, event1, q1) \<Rightarrow>
             (let timeLeft = timeout - (now - start)
              in if timeout \<ge> 0 \<and> timeLeft \<le> 0 then Some (False, event1, q1)
                 else
                   (let timerTimeout = fst (getNextTimerTimeout q1);
                        timeLeft1 =
                          (if timeout < 0 \<or> (timerTimeout \<ge> 0 \<and> timerTimeout < timeLeft)
                           then timerTimeout else timeLeft);
                        (now1, b) = buf_waitForEvent ops now timeLeft1 (m_buffer q1)
                    in getEvent_loop fuel ops timeout start now1 event1 (q1\<lparr>m_buffer := b\<rparr>))))
      else
        (case buf_getEvent ops event (m_buffer q) of
           (type, event1, dataID, b) \<Rightarrow>
             (let q1 = q\<lparr>m_buffer := b\<rparr>
              in case type of
                   BufNone \<Rightarrow>
                     if timeout < 0 \<or> timeout \<le> now - start
                     then getEvent_loop fuel ops timeout start now event1 q1
                     else Some (False, event1, q1)
                 | BufSystem \<Rightarrow> Some (True, event1, q1)
                 | BufUser \<Rightarrow>
                     (let (event2, q2) = removeEvent dataID q1 in Some (True, event2, q2)))))"

definition getEvent ::
  "nat \<Rightarrow> 'b IEventQueueBuffer \<Rightarrow> real \<Rightarrow> real \<Rightarrow> CEvent \<Rightarrow> 'b CEventQueue \<Rightarrow>
   (bool \<times> CEvent \<times> 'b CEventQueue) option" where
  "getEvent fuel ops timeout now event q = getEvent_loop fuel ops timeout now now event q"

subsection \<open>Sequences of calls\<close>

text \<open>
  The calls that touch the event-data table: the public \<^verbatim>\<open>addEvent\<close>, \<^verbatim>\<open>getEvent\<close>
  (with its fuel, its timeout, the clock reading at entry and the caller's event) and
  \<^verbatim>\<open>adoptBuffer\<close>, and the private \<^verbatim>\<open>saveEvent\<close> and \<^verbatim>\<open>removeEvent\<close>.
\<close>

datatype 'b call =
    CallAddEvent CEvent
  | CallGetEvent nat real real CEvent
  | CallAdoptBuffer "'b option"
  | CallSaveEvent CEvent
  | CallRemoveEvent UInt32

fun call_step :: "'b IEventQueueBuffer \<Rightarrow> 'b call \<Rightarrow> 'b CEventQueue \<Rightarrow> 'b CEventQueue option" where
  "call_step ops (CallAddEvent event) q = Some (addEvent ops event q)"
| "call_step ops (CallGetEvent fuel timeout now event) q =
     (case getEvent fuel ops timeout now event q of
        None \<Rightarrow> None
      | Some (found, event1, q1) \<Rightarrow> Some q1)"
| "call_step ops (CallAdoptBuffer buffer) q = Some (adoptBuffer ops buffer q)"
| "call_step ops (CallSaveEvent event) q = Some (snd (saveEvent event q))"
| "call_step ops (CallRemoveEvent eventID) q = Some (snd (removeEvent eventID q))"

text \<open>The ids that \<^verbatim>\<open>saveEvent\<close> returns during a call.\<close>

fun call_ids :: "'b call \<Rightarrow> 'b CEventQueue \<Rightarrow> UInt32 list" where
  "call_ids (CallAddEvent event) q =
     (if ev_type event = kUnknown \<or> ev_type event = kSystem \<or> ev_type event = kTimer
      then [] else [fst (saveEvent event q)])"
| "call_ids (CallSaveEvent event) q = [fst (saveEvent event q)]"
| "call_ids other q = []"

fun is_adopt :: "'b call \<Rightarrow> bool" where
  "is_adopt (CallAdoptBuffer buffer) = True"
| "is_adopt other = False"

text \<open>
  Running a sequence of calls. Beside the queue, the run keeps two lists: the ids
  allocated since the run began, and the ids allocated since the last \<^verbatim>\<open>adoptBuffer\<close>.
  A \<^verbatim>\<open>getEvent\<close> that runs out of fuel ends the run with \<open>None\<close>.
\<close>

fun exec ::
  "'b IEventQueueBuffer \<Rightarrow> 'b call list \<Rightarrow> 'b CEventQueue \<times> UInt32 list \<times> UInt32 list \<Rightarrow>
   ('b CEventQueue \<times> UInt32 list \<times> UInt32 list) option" where
  "exec ops [] s = Some s"
| "exec ops (c # cs) (q, ever, since) =
     (case call_step ops c q of
        None \<Rightarrow> None
      | Some q1 \<Rightarrow>
          exec ops cs
            (q1, ever @ call_ids c q, (if is_adopt c then [] else since @ call_ids c q)))"

definition highWater :: "UInt32 list \<Rightarrow> nat" where
  "highWater ids = card (set ids)"

definition prefix_ids :: "nat \<Rightarrow> UInt32 set" where
  "prefix_ids n = {i. unat i < n}"

definition table_ids :: "'b CEventQueue \<Rightarrow> UInt32 set" where
  "table_ids q = dom (m_events q)"

definition free_ids :: "'b CEventQueue \<Rightarrow> UInt32 set" where
  "free_ids q = set (m_oldEventIDs q)"

subsection \<open>A buffer for the examples\<close>

text \<open>
  A buffer to run the queue on: a first-in first-out list of pending entries, each a
  verdict with a data id, and a flag that makes \<open>addEvent\<close> fail. Waiting returns at
  once when an entry is pending or the timeout is negative, and after the timeout
  otherwise. A fresh one is empty and accepts events, as the simple in-memory buffer
  of the spec does.
\<close>

record TestBuffer =
  tb_pending :: "(BufferType \<times> UInt32) list"
  tb_full :: bool
  tb_timers :: nat

definition test_buffer :: "TestBuffer IEventQueueBuffer" where
  "test_buffer =
     \<lparr>buf_isEmpty = (\<lambda>b. tb_pending b = []),
      buf_waitForEvent =
        (\<lambda>now timeout b. (if tb_pending b \<noteq> [] \<or> timeout < 0 then now else now + timeout, b)),
      buf_getEvent =
        (\<lambda>event b. case tb_pending b of
            [] \<Rightarrow> (BufNone, event, 0, b)
          | (BufSystem, dataID) # rest \<Rightarrow>
              (BufSystem, CEvent3 kSystem NULL NoData, dataID, b\<lparr>tb_pending := rest\<rparr>)
          | (type, dataID) # rest \<Rightarrow> (type, event, dataID, b\<lparr>tb_pending := rest\<rparr>)),
      buf_addEvent =
        (\<lambda>dataID b. if tb_full b then (False, b)
                     else (True, b\<lparr>tb_pending := tb_pending b @ [(BufUser, dataID)]\<rparr>)),
      buf_newTimer = (\<lambda>duration oneShot b. (Suc (tb_timers b), b\<lparr>tb_timers := Suc (tb_timers b)\<rparr>)),
      buf_deleteTimer = (\<lambda>timer b. b),
      CSimpleEventQueueBuffer = \<lparr>tb_pending = [], tb_full = False, tb_timers = 0\<rparr>\<rparr>"

definition full_buffer :: TestBuffer where
  "full_buffer = \<lparr>tb_pending = [], tb_full = True, tb_timers = 0\<rparr>"

definition spurious_buffer :: TestBuffer where
  "spurious_buffer = \<lparr>tb_pending = [(BufNone, 0)], tb_full = False, tb_timers = 0\<rparr>"

definition event_a :: CEvent where
  "event_a = CEvent3 kLast 7 (UserData 1)"

definition event_b :: CEvent where
  "event_b = CEvent3 kQuit 8 (UserData 2)"

definition event_c :: CEvent where
  "event_c = CEvent3 (Suc kLast) 7 (UserData 3)"

text \<open>A queue with a handler 200 for events of type \<open>kLast\<close> to target 7 and a
  handler 100 for any event to target 7.\<close>

definition handled_queue :: "TestBuffer CEventQueue" where
  "handled_queue =
     adoptHandler 7 100 (the (adoptHandler_typed kLast 7 200 (CEventQueue_new test_buffer 0)))"

text \<open>A queue whose buffer holds one pending entry that yields no event.\<close>

definition spurious_queue :: "TestBuffer CEventQueue" where
  "spurious_queue = adoptBuffer test_buffer (Some spurious_buffer) (CEventQueue_new test_buffer 0)"

text \<open>A queue with one repeating timer of 5 seconds for target 7, created at time 0.\<close>

definition timer_queue :: "TestBuffer CEventQueue" where
  "timer_queue = snd (the (newTimer test_buffer 0 5 7 (CEventQueue_new test_buffer 0)))"

text \<open>A queue with a one-shot timer of 4 seconds and a repeating timer of 8 seconds,
  both created at time 0.\<close>

definition two_timers :: "TestBuffer CEventQueue" where
  "two_timers =
     snd (the (newTimer_fp exact_arith test_buffer 0 8 7
       (snd (the (newOneShotTimer_fp exact_arith test_buffer 0 4 NULL
          (CEventQueue_new test_buffer 0))))))"

text \<open>A queue with a repeating timer of 1/1024 second, created at time 0.\<close>

definition overdue_queue :: "TestBuffer CEventQueue" where
  "overdue_queue =
     snd (the (newTimer_fp exact_arith test_buffer 0 (1 / 1024) 7 (CEventQueue_new test_buffer 0)))"

text \<open>The double nearest to one tenth, and a queue with a repeating timer of that
  timeout, created at time 0, in the arithmetic of the machine.\<close>

definition tenth :: real where
  "tenth = binary64 (1 / 10)"

definition tenth_queue :: "TestBuffer CEventQueue" where
  "tenth_queue =
     snd (the (newTimer_fp binary64_arith test_buffer 0 tenth 7 (CEventQueue_new test_buffer 0)))"

text \<open>Queues whose handler table holds a null pointer: under the key of type \<open>kLast\<close>
  and target 7, beside a handler 100 for any event to target 7; and under the key for
  any event to target 7.\<close>

definition null_handler_queue :: "TestBuffer CEventQueue" where
  "null_handler_queue =
     adoptHandler 7 100 (the (adoptHandler_typed kLast 7 NULL (CEventQueue_new test_buffer 0)))"

definition null_wildcard_queue :: "TestBuffer CEventQueue" where
  "null_wildcard_queue = adoptHandler 7 NULL (CEventQueue_new test_buffer 0)"

text \<open>
  A queue with handlers, a registered type, a timer, a buffer that refuses events and
  one stored event; and the same queue after one more event was stored and the first
  one removed, so that the free stack holds the id 0.
\<close>

definition busy_queue :: "TestBuffer CEventQueue" where
  "busy_queue =
     snd (saveEvent event_b
       (snd (the (newTimer test_buffer 0 5 7
         (snd (registerType ''x''
           (adoptBuffer test_buffer (Some full_buffer) handled_queue)))))))"

definition recycled_queue :: "TestBuffer CEventQueue" where
  "recycled_queue = snd (removeEvent 0 (snd (saveEvent event_c busy_queue)))"

subsection \<open>Invariants\<close>

text \<open>
  The invariant of the event-data table, for a set \<open>A\<close> of allocated ids: no id is both
  in the table and on the free stack, the free stack holds no id twice, the two together
  hold exactly the ids of \<open>A\<close>, and \<open>A\<close> is an initial segment of the ids.
\<close>

definition id_inv :: "'b CEventQueue \<Rightarrow> UInt32 set \<Rightarrow> bool" where
  "id_inv q A \<longleftrightarrow>
     table_ids q \<inter> free_ids q = {} \<and> distinct (m_oldEventIDs q) \<and>
     table_ids q \<union> free_ids q = A \<and> A = prefix_ids (card A)"

text \<open>
  The invariant of the type registry: the next type to hand out is not a reserved one,
  and every type that has a name was handed out before.
\<close>

definition registry_ok :: "'b CEventQueue \<Rightarrow> bool" where
  "registry_ok q \<longleftrightarrow> kLast \<le> m_nextType q \<and> dom (m_typeMap q) \<subseteq> {kLast..<m_nextType q}"

text \<open>
  The timer queue after the countdown of a sweep at clock reading \<open>now\<close>, and a
  sequence of sweeps at successive clock readings.
\<close>

definition countdown_fp :: "double_arith \<Rightarrow> real \<Rightarrow> 'b CEventQueue \<Rightarrow> CTimer list" where
  "countdown_fp ar now q = map (CTimer_minus_fp ar (dsub ar now (m_time q))) (m_timerQueue q)"

fun sweeps_fp :: "double_arith \<Rightarrow> real list \<Rightarrow> 'b CEventQueue \<Rightarrow> 'b CEventQueue" where
  "sweeps_fp ar [] q = q"
| "sweeps_fp ar (now # nows) q =
     sweeps_fp ar nows (snd (snd (hasTimerExpired_fp ar now CEvent_default q)))"

section \<open>Properties\<close>

subsection \<open>The ids of the event-data table\<close>

lemma prefix_ids_Suc:
  assumes "n < 2 ^ 32"
  shows "prefix_ids (Suc n) = insert (of_nat n) (prefix_ids n)"
proof -
  have u: "unat (of_nat n :: UInt32) = n"
    using assms by (simp add: unat_of_nat)
  have "\<And>i::UInt32. unat i = n \<longleftrightarrow> i = of_nat n"
    using u by (auto simp: word_unat_eq_iff)
  then show ?thesis
    by (auto simp: prefix_ids_def less_Suc_eq)
qed

lemma of_nat_notin_prefix:
  assumes "n < 2 ^ 32"
  shows "(of_nat n :: UInt32) \<notin> prefix_ids n"
  using assms by (simp add: prefix_ids_def unat_of_nat)

lemma prefix_ids_full: "prefix_ids (2 ^ 32) = UNIV"
proof -
  have "\<And>i::UInt32. unat i < 2 ^ 32"
    using unsigned_less [where 'b = 32 and 'a = nat] by simp
  then show ?thesis by (auto simp: prefix_ids_def)
qed

lemma card_ids_le: "card (A :: UInt32 set) \<le> 2 ^ 32"
proof -
  have "card A \<le> card (UNIV :: UInt32 set)"
    by (rule card_mono) auto
  then show ?thesis by (simp add: card_word)
qed

lemma prefix_grow:
  fixes A :: "UInt32 set"
  assumes "A = prefix_ids (card A)"
  shows "insert (of_nat (card A)) A = prefix_ids (card (insert (of_nat (card A)) A))"
proof (cases "card A < 2 ^ 32")
  case True
  have fin: "finite A" by simp
  have notin: "(of_nat (card A) :: UInt32) \<notin> A"
    using of_nat_notin_prefix [OF True] assms by simp
  have "card (insert (of_nat (card A)) A) = Suc (card A)"
    using notin fin by simp
  moreover have "prefix_ids (Suc (card A)) = insert (of_nat (card A)) A"
    using prefix_ids_Suc [OF True] assms by simp
  ultimately show ?thesis by simp
next
  case False
  then have "card A = 2 ^ 32" using card_ids_le [of A] by simp
  then have "A = UNIV" using assms prefix_ids_full by simp
  then show ?thesis using assms by (simp add: insert_absorb)
qed

lemma saveEvent_inv:
  assumes "id_inv q A"
  shows "id_inv (snd (saveEvent e q)) (insert (fst (saveEvent e q)) A)"
proof (cases "m_oldEventIDs q = []")
  case True
  then have A: "A = dom (m_events q)" and P: "A = prefix_ids (card A)"
    using assms by (auto simp: id_inv_def table_ids_def free_ids_def)
  have "insert (of_nat (card A)) A = prefix_ids (card (insert (of_nat (card A)) A))"
    using prefix_grow [OF P] .
  then show ?thesis
    using True A by (simp add: id_inv_def saveEvent_def table_ids_def free_ids_def Let_def)
next
  case False
  then obtain xs x where xs: "m_oldEventIDs q = xs @ [x]"
    by (metis rev_exhaust)
  then have "x \<in> A" "x \<notin> set xs" "x \<notin> dom (m_events q)" "distinct xs"
    using assms by (auto simp: id_inv_def table_ids_def free_ids_def)
  then show ?thesis
    using assms xs
    by (auto simp: id_inv_def saveEvent_def table_ids_def free_ids_def Let_def insert_absorb)
qed

lemma removeEvent_inv:
  assumes "id_inv q A"
  shows "id_inv (snd (removeEvent i q)) A"
  using assms
  by (auto simp: id_inv_def removeEvent_def table_ids_def free_ids_def split: option.splits)


lemma adoptBuffer_inv: "id_inv (adoptBuffer ops b q) {}"
  by (simp add: id_inv_def adoptBuffer_def table_ids_def free_ids_def prefix_ids_def)

lemma id_inv_buffer [simp]: "id_inv (q\<lparr>m_buffer := b\<rparr>) A = id_inv q A"
  by (simp add: id_inv_def table_ids_def free_ids_def)

lemma id_inv_deleteData [simp]: "id_inv (q\<lparr>deleteData_calls := d\<rparr>) A = id_inv q A"
  by (simp add: id_inv_def table_ids_def free_ids_def)

lemma saveEvent_buffer: "m_buffer (snd (saveEvent e q)) = m_buffer q"
  by (simp add: saveEvent_def Let_def)

lemma addEvent_inv:
  assumes "id_inv q A"
  shows "id_inv (addEvent ops e q) (A \<union> set (call_ids (CallAddEvent e) q))"
proof (cases "ev_type e = kUnknown \<or> ev_type e = kSystem \<or> ev_type e = kTimer")
  case True
  then show ?thesis using assms by (auto simp: addEvent_def)
next
  case False
  obtain i q1 where s: "saveEvent e q = (i, q1)" by (cases "saveEvent e q")
  obtain ok b where a: "buf_addEvent ops i (m_buffer q1) = (ok, b)"
    by (cases "buf_addEvent ops i (m_buffer q1)")
  have 1: "id_inv q1 (insert i A)"
    using saveEvent_inv [OF assms, of e] s by simp
  then have 2: "id_inv (snd (removeEvent i (q1\<lparr>m_buffer := b\<rparr>))) (insert i A)"
    by (intro removeEvent_inv) simp
  show ?thesis
    using False s a 1 2 by (auto simp: addEvent_def Let_def split: prod.splits)
qed

lemma hasTimerExpired_events:
  "m_events (snd (snd (hasTimerExpired now ev q))) = m_events q"
  "m_oldEventIDs (snd (snd (hasTimerExpired now ev q))) = m_oldEventIDs q"
  by (simp_all add: hasTimerExpired_def Let_def)

lemma hasTimerExpired_inv:
  "id_inv (snd (snd (hasTimerExpired now ev q))) A = id_inv q A"
  by (simp add: id_inv_def table_ids_def free_ids_def hasTimerExpired_events)

lemma getEvent_loop_inv:
  assumes "id_inv q A" "getEvent_loop fuel ops timeout start now ev q = Some (r, ev1, q1)"
  shows "id_inv q1 A"
  using assms
proof (induction fuel arbitrary: now ev q)
  case 0
  then show ?case by simp
next
  case (Suc fuel)
  show ?case
  proof (cases "buf_isEmpty ops (m_buffer q)")
    case True
    obtain r2 ev2 q2 where h: "hasTimerExpired now ev q = (r2, ev2, q2)"
      by (cases "hasTimerExpired now ev q")
    have i2: "id_inv q2 A"
      using hasTimerExpired_inv [of now ev q A] h Suc.prems(1) by simp
    show ?thesis
    proof (cases r2)
      case True
      then show ?thesis using Suc.prems(2) \<open>buf_isEmpty ops (m_buffer q)\<close> h i2 by simp
    next
      case False
      show ?thesis
      proof (cases "timeout \<ge> 0 \<and> timeout - (now - start) \<le> 0")
        case True
        then show ?thesis
          using Suc.prems(2) \<open>buf_isEmpty ops (m_buffer q)\<close> h i2 False by (simp add: Let_def)
      next
        case nt: False
        obtain now1 b where w: "buf_waitForEvent ops now
            (if timeout < 0 \<or> (fst (getNextTimerTimeout q2) \<ge> 0 \<and>
                 fst (getNextTimerTimeout q2) < timeout - (now - start))
             then fst (getNextTimerTimeout q2) else timeout - (now - start)) (m_buffer q2) = (now1, b)"
          by (metis surj_pair)
        have "getEvent_loop fuel ops timeout start now1 ev2 (q2\<lparr>m_buffer := b\<rparr>) = Some (r, ev1, q1)"
          using Suc.prems(2) \<open>buf_isEmpty ops (m_buffer q)\<close> h False nt w
          by (auto simp: Let_def split: if_splits)
        moreover have "id_inv (q2\<lparr>m_buffer := b\<rparr>) A" using i2 by simp
        ultimately show ?thesis using Suc.IH [of "q2\<lparr>m_buffer := b\<rparr>" now1 ev2] by blast
      qed
    qed
  next
    case False
    obtain ty ev2 d b where g: "buf_getEvent ops ev (m_buffer q) = (ty, ev2, d, b)"
      by (cases "buf_getEvent ops ev (m_buffer q)")
    have i2: "id_inv (q\<lparr>m_buffer := b\<rparr>) A" using Suc.prems(1) by simp
    show ?thesis
    proof (cases ty)
      case BufNone
      show ?thesis
      proof (cases "timeout < 0 \<or> timeout \<le> now - start")
        case True
        then have "getEvent_loop fuel ops timeout start now ev2 (q\<lparr>m_buffer := b\<rparr>) = Some (r, ev1, q1)"
          using Suc.prems(2) False g BufNone by (auto simp: Let_def split: if_splits)
        then show ?thesis using Suc.IH [OF i2] by blast
      next
        case stop: False
        then have "q1 = q\<lparr>m_buffer := b\<rparr>"
          using Suc.prems(2) False g BufNone by (auto simp: Let_def split: if_splits)
        then show ?thesis using i2 by simp
      qed
    next
      case BufSystem
      then show ?thesis using Suc.prems(2) False g i2 by (auto simp: Let_def)
    next
      case BufUser
      then show ?thesis
        using Suc.prems(2) False g removeEvent_inv [OF i2, of d]
        by (auto simp: Let_def split: prod.splits)
    qed
  qed
qed

lemma call_step_inv:
  assumes "id_inv q A" "call_step ops c q = Some q1"
  shows "id_inv q1 (if is_adopt c then {} else A \<union> set (call_ids c q))"
proof (cases c)
  case (CallAddEvent e)
  then show ?thesis using assms addEvent_inv [OF assms(1), of ops e] by auto
next
  case (CallGetEvent fuel timeout now ev)
  then show ?thesis
    using assms getEvent_loop_inv [OF assms(1)]
    by (auto simp: getEvent_def split: option.splits)
next
  case (CallAdoptBuffer b)
  then show ?thesis using assms adoptBuffer_inv by auto
next
  case (CallSaveEvent e)
  then show ?thesis using assms saveEvent_inv [OF assms(1), of e] by auto
next
  case (CallRemoveEvent i)
  then show ?thesis using assms removeEvent_inv [OF assms(1), of i] by auto
qed

lemma exec_inv:
  assumes "id_inv q (set since)" "exec ops cs (q, ever, since) = Some (q1, ever1, since1)"
  shows "id_inv q1 (set since1)"
  using assms
proof (induction cs arbitrary: q ever since)
  case Nil
  then show ?case by simp
next
  case (Cons c cs)
  obtain q2 where st: "call_step ops c q = Some q2"
    using Cons.prems(2) by (auto split: option.splits)
  have "id_inv q2 (set (if is_adopt c then [] else since @ call_ids c q))"
    using call_step_inv [OF Cons.prems(1) st] by (auto split: if_splits)
  then show ?case
    using Cons.IH Cons.prems(2) st by simp
qed

lemma new_inv: "id_inv (CEventQueue_new ops now) (set [])"
  by (simp add: id_inv_def CEventQueue_new_def table_ids_def free_ids_def prefix_ids_def)

text \<open>
  C1, as the spec states it, with \<open>highWater\<close> the number of distinct ids ever allocated,
  fails: \<^verbatim>\<open>adoptBuffer\<close> clears the table and the free stack, and the ids start again
  at 0. After one \<^verbatim>\<open>saveEvent\<close> and one \<^verbatim>\<open>adoptBuffer\<close> one id (0) has been
  allocated, but neither the table nor the free stack holds it.
\<close>

theorem id_bijection_ever_counterexample:
  "exec test_buffer [CallSaveEvent event_a, CallAdoptBuffer None]
       (CEventQueue_new test_buffer 0, [], []) =
     Some (adoptBuffer test_buffer None (snd (saveEvent event_a (CEventQueue_new test_buffer 0))),
           [0], []) \<and>
   table_ids (adoptBuffer test_buffer None (snd (saveEvent event_a (CEventQueue_new test_buffer 0))))
     \<union> free_ids (adoptBuffer test_buffer None (snd (saveEvent event_a (CEventQueue_new test_buffer 0))))
     = {} \<and>
   prefix_ids (highWater [0]) = {0} \<and>
   table_ids (adoptBuffer test_buffer None (snd (saveEvent event_a (CEventQueue_new test_buffer 0))))
     \<union> free_ids (adoptBuffer test_buffer None (snd (saveEvent event_a (CEventQueue_new test_buffer 0))))
     \<noteq> prefix_ids (highWater [0])"
proof -
  have "unat i < Suc 0 \<longleftrightarrow> i = 0" for i :: UInt32
    by (auto simp: unat_eq_0)
  then have p: "prefix_ids (highWater [0]) = {0}"
    by (auto simp: prefix_ids_def highWater_def)
  have s: "fst (saveEvent event_a (CEventQueue_new test_buffer 0)) = 0"
    by (simp add: saveEvent_def CEventQueue_new_def)
  show ?thesis
    using p s by (simp add: adoptBuffer_def table_ids_def free_ids_def)
qed

text \<open>
  C1, amended: in every state that a sequence of \<^verbatim>\<open>addEvent\<close>, \<^verbatim>\<open>getEvent\<close>,
  \<^verbatim>\<open>adoptBuffer\<close>, \<^verbatim>\<open>saveEvent\<close> and \<^verbatim>\<open>removeEvent\<close> calls reaches from a new queue,
  the ids in the event-data table are disjoint from the ids on the free stack, and
  their union is the set of the first \<open>highWater\<close> ids, where \<open>highWater\<close> is the
  number of distinct ids allocated since the last \<^verbatim>\<open>adoptBuffer\<close> (since the
  construction when there was none). The ids are 32-bit: the statement holds also when
  the table is full and the size wraps around to 0.
\<close>

theorem id_bijection:
  assumes "exec ops cs (CEventQueue_new ops now, [], []) = Some (q, ever, since)"
  shows "table_ids q \<inter> free_ids q = {} \<and>
         table_ids q \<union> free_ids q = prefix_ids (highWater since)"
  using exec_inv [OF new_inv assms] by (auto simp: id_inv_def highWater_def)

theorem id_bijection_witness:
  "exec test_buffer
       [CallAddEvent event_a, CallAddEvent event_b, CallGetEvent 3 1 0 CEvent_default,
        CallSaveEvent event_c]
       (CEventQueue_new test_buffer 0, [], []) \<noteq> None \<and>
   table_ids (fst (the (exec test_buffer
       [CallAddEvent event_a, CallAddEvent event_b, CallGetEvent 3 1 0 CEvent_default,
        CallSaveEvent event_c]
       (CEventQueue_new test_buffer 0, [], [])))) \<inter>
   free_ids (fst (the (exec test_buffer
       [CallAddEvent event_a, CallAddEvent event_b, CallGetEvent 3 1 0 CEvent_default,
        CallSaveEvent event_c]
       (CEventQueue_new test_buffer 0, [], [])))) = {} \<and>
   table_ids (fst (the (exec test_buffer
       [CallAddEvent event_a, CallAddEvent event_b, CallGetEvent 3 1 0 CEvent_default,
        CallSaveEvent event_c]
       (CEventQueue_new test_buffer 0, [], [])))) \<union>
   free_ids (fst (the (exec test_buffer
       [CallAddEvent event_a, CallAddEvent event_b, CallGetEvent 3 1 0 CEvent_default,
        CallSaveEvent event_c]
       (CEventQueue_new test_buffer 0, [], [])))) =
   prefix_ids (highWater (snd (snd (the (exec test_buffer
       [CallAddEvent event_a, CallAddEvent event_b, CallGetEvent 3 1 0 CEvent_default,
        CallSaveEvent event_c]
       (CEventQueue_new test_buffer 0, [], []))))))"
proof -
  let ?r = "exec test_buffer
       [CallAddEvent event_a, CallAddEvent event_b, CallGetEvent 3 1 0 CEvent_default,
        CallSaveEvent event_c]
       (CEventQueue_new test_buffer 0, [], [])"
  have ne: "?r \<noteq> None"
    by (simp add: addEvent_def saveEvent_def removeEvent_def getEvent_def
        CEventQueue_new_def test_buffer_def event_a_def event_b_def event_c_def CEvent3_def
        kLast_def kQuit_def kUnknown_def kSystem_def kTimer_def Let_def numeral_2_eq_2 numeral_3_eq_3)
  then have "?r = Some (fst (the ?r), fst (snd (the ?r)), snd (snd (the ?r)))"
    by (cases ?r) auto
  from id_bijection [OF this] ne show ?thesis by simp
qed

subsection \<open>Adding an event\<close>

lemma saveEvent_stores: "m_events (snd (saveEvent e q)) (fst (saveEvent e q)) = Some e"
  by (simp add: saveEvent_def Let_def)

text \<open>
  C2: \<^verbatim>\<open>addEvent\<close> of an event of type Unknown, System or Timer returns the queue as
  it was: the table, the free stack, the buffer and the record of \<^verbatim>\<open>deleteData\<close> calls
  are unchanged. For any other type (Quit too) the event is saved under the id that
  \<^verbatim>\<open>saveEvent\<close> returns and that id is submitted to the buffer: the buffer of the
  result is the buffer after \<open>buf_addEvent\<close> of that id, and when the buffer accepts
  it, the result is the queue after \<^verbatim>\<open>saveEvent\<close> with that buffer.
\<close>

theorem addEvent_reserved_dropped:
  "(ev_type e = kUnknown \<or> ev_type e = kSystem \<or> ev_type e = kTimer \<longrightarrow>
      addEvent ops e q = q) \<and>
   (\<not> (ev_type e = kUnknown \<or> ev_type e = kSystem \<or> ev_type e = kTimer) \<longrightarrow>
      m_events (snd (saveEvent e q)) (fst (saveEvent e q)) = Some e \<and>
      m_buffer (addEvent ops e q) =
        snd (buf_addEvent ops (fst (saveEvent e q)) (m_buffer q)) \<and>
      (fst (buf_addEvent ops (fst (saveEvent e q)) (m_buffer q)) \<longrightarrow>
         addEvent ops e q =
           (snd (saveEvent e q))
             \<lparr>m_buffer := snd (buf_addEvent ops (fst (saveEvent e q)) (m_buffer q))\<rparr>))"
proof -
  obtain i q1 where s: "saveEvent e q = (i, q1)" by (cases "saveEvent e q")
  have b: "m_buffer q1 = m_buffer q" using saveEvent_buffer [of e q] s by simp
  obtain ok b1 where a: "buf_addEvent ops i (m_buffer q) = (ok, b1)"
    by (cases "buf_addEvent ops i (m_buffer q)")
  have r: "m_buffer (snd (removeEvent i (q1\<lparr>m_buffer := b1\<rparr>))) = b1"
    by (simp add: removeEvent_def split: option.splits)
  show ?thesis
    using s a b r saveEvent_stores [of e q]
    by (auto simp: addEvent_def Let_def split: prod.splits)
qed

theorem addEvent_reserved_dropped_witness:
  "addEvent test_buffer (CEvent3 kUnknown 7 (UserData 1)) (CEventQueue_new test_buffer 0) =
     CEventQueue_new test_buffer 0 \<and>
   addEvent test_buffer (CEvent3 kSystem 7 (UserData 1)) (CEventQueue_new test_buffer 0) =
     CEventQueue_new test_buffer 0 \<and>
   addEvent test_buffer (CEvent3 kTimer 7 (UserData 1)) (CEventQueue_new test_buffer 0) =
     CEventQueue_new test_buffer 0 \<and>
   fst (saveEvent event_b (CEventQueue_new test_buffer 0)) = 0 \<and>
   m_events (addEvent test_buffer event_b (CEventQueue_new test_buffer 0)) 0 = Some event_b \<and>
   tb_pending (m_buffer (addEvent test_buffer event_b (CEventQueue_new test_buffer 0))) =
     [(BufUser, 0)]"
proof -
  have i: "fst (saveEvent event_b (CEventQueue_new test_buffer 0)) = 0"
    by (simp add: saveEvent_def CEventQueue_new_def)
  have b: "buf_addEvent test_buffer 0 (m_buffer (CEventQueue_new test_buffer 0)) =
      (True, \<lparr>tb_pending = [(BufUser, 0)], tb_full = False, tb_timers = 0\<rparr>)"
    by (simp add: test_buffer_def CEventQueue_new_def)
  have t: "ev_type event_b = kQuit" by (simp add: event_b_def CEvent3_def)
  show ?thesis
    using addEvent_reserved_dropped [of "CEvent3 kUnknown 7 (UserData 1)" test_buffer
        "CEventQueue_new test_buffer 0"]
      addEvent_reserved_dropped [of "CEvent3 kSystem 7 (UserData 1)" test_buffer
        "CEventQueue_new test_buffer 0"]
      addEvent_reserved_dropped [of "CEvent3 kTimer 7 (UserData 1)" test_buffer
        "CEventQueue_new test_buffer 0"]
      addEvent_reserved_dropped [of event_b test_buffer "CEventQueue_new test_buffer 0"]
    by (simp add: i b t CEvent3_def kQuit_def kUnknown_def kSystem_def kTimer_def
        saveEvent_stores [of event_b "CEventQueue_new test_buffer 0", unfolded i])
qed

lemma card_prefix_ids: "n \<le> 2 ^ 32 \<Longrightarrow> card (prefix_ids n) = n"
proof (induction n)
  case 0
  then show ?case by (simp add: prefix_ids_def)
next
  case (Suc n)
  then have n: "n < 2 ^ 32" by simp
  have "card (insert (of_nat n :: UInt32) (prefix_ids n)) = Suc (card (prefix_ids n))"
    using of_nat_notin_prefix [OF n] by simp
  then show ?case using prefix_ids_Suc [OF n] Suc.IH n by simp
qed

lemma prefix_ids_beyond: "2 ^ 32 \<le> n \<Longrightarrow> prefix_ids n = UNIV"
proof -
  assume n: "2 ^ 32 \<le> n"
  have "\<And>i::UInt32. unat i < 2 ^ 32"
    using unsigned_less [where 'b = 32 and 'a = nat] by simp
  then have "\<And>i::UInt32. unat i < n" using n by (meson less_le_trans)
  then show ?thesis by (auto simp: prefix_ids_def)
qed

lemma saveEvent_fresh:
  assumes disj: "table_ids q \<inter> free_ids q = {}"
    and pre: "table_ids q \<union> free_ids q = prefix_ids n"
    and room: "card (table_ids q) < 2 ^ 32"
  shows "fst (saveEvent e q) \<notin> table_ids q"
proof (cases "m_oldEventIDs q = []")
  case True
  then have t: "table_ids q = prefix_ids n" using pre by (simp add: free_ids_def)
  have "n < 2 ^ 32"
  proof (rule ccontr)
    assume "\<not> n < 2 ^ 32"
    then have "prefix_ids n = UNIV" using prefix_ids_beyond [of n] by simp
    then show False using room t by (simp add: card_word)
  qed
  then have "card (table_ids q) = n" "(of_nat n :: UInt32) \<notin> table_ids q"
    using t card_prefix_ids [of n] of_nat_notin_prefix [of n] by simp_all
  then show ?thesis
    using True by (simp add: saveEvent_def Let_def table_ids_def)
next
  case False
  then have "last (m_oldEventIDs q) \<in> free_ids q" by (simp add: free_ids_def)
  then show ?thesis
    using False disj by (auto simp: saveEvent_def Let_def)
qed

lemma addEvent_refused:
  assumes nonres: "\<not> (ev_type e = kUnknown \<or> ev_type e = kSystem \<or> ev_type e = kTimer)"
    and fail: "\<not> fst (buf_addEvent ops (fst (saveEvent e q)) (m_buffer q))"
    and fresh: "fst (saveEvent e q) \<notin> table_ids q"
  shows "m_events (addEvent ops e q) = m_events q \<and>
         m_oldEventIDs (addEvent ops e q) =
           (if m_oldEventIDs q = [] then [fst (saveEvent e q)] else m_oldEventIDs q) \<and>
         deleteData_calls (addEvent ops e q) = deleteData_calls q @ [e]"
proof -
  let ?i = "fst (saveEvent e q)"
  obtain ok b where a: "buf_addEvent ops ?i (m_buffer q) = (ok, b)"
    by (cases "buf_addEvent ops ?i (m_buffer q)")
  have nok: "\<not> ok" using fail a by simp
  have n: "m_events q ?i = None" using fresh by (auto simp: table_ids_def)
  show ?thesis
  proof (cases "m_oldEventIDs q = []")
    case True
    then have i: "?i = of_nat (card (dom (m_events q)))"
      by (simp add: saveEvent_def Let_def)
    have m: "(m_events q)(of_nat (card (dom (m_events q))) := None) = m_events q"
      using n i by (simp add: fun_upd_idem)
    show ?thesis
      using nonres a nok True m
      by (simp add: addEvent_def saveEvent_def removeEvent_def Let_def)
  next
    case False
    then have i: "?i = last (m_oldEventIDs q)"
      by (simp add: saveEvent_def Let_def)
    have m: "(m_events q)(last (m_oldEventIDs q) := None) = m_events q"
      using n i by (simp add: fun_upd_idem)
    show ?thesis
      using nonres a nok False m
      by (simp add: addEvent_def saveEvent_def removeEvent_def Let_def)
  qed
qed

text \<open>
  C5, as the spec states it, fails where the free stack was empty before the call: the
  id is new, \<^verbatim>\<open>removeEvent\<close> pushes it, and the free stack ends with one id more
  than it had. Here the buffer refuses the first event of a queue.
\<close>

theorem addEvent_buffer_failure_counterexample:
  "buf_addEvent test_buffer 0 full_buffer = (False, full_buffer) \<and>
   m_oldEventIDs (adoptBuffer test_buffer (Some full_buffer) (CEventQueue_new test_buffer 0)) = [] \<and>
   m_oldEventIDs (addEvent test_buffer event_a
      (adoptBuffer test_buffer (Some full_buffer) (CEventQueue_new test_buffer 0))) = [0]"
  by (simp add: addEvent_def saveEvent_def removeEvent_def adoptBuffer_def CEventQueue_new_def
      test_buffer_def full_buffer_def event_a_def CEvent3_def
      kLast_def kUnknown_def kSystem_def kTimer_def)

text \<open>
  C5, amended: in a queue in which the ids of the event-data table are disjoint from
  the ids on the free stack, their union is the set of the first \<open>n\<close> ids for some
  \<open>n\<close> (the invariant of C1) and the table holds fewer than \<open>2 ^ 32\<close> events, when
  the buffer refuses the id of an event of a non-reserved type, \<^verbatim>\<open>addEvent\<close> leaves the
  event-data table exactly as it was before the call, the id is the top of the free
  stack, \<^verbatim>\<open>deleteData\<close> is called on the event, and the free stack is as it was
  before the call when the id came from it, and holds just the new id when it was
  empty. Nothing is asked of the handlers, the timers or the type registry.
\<close>

theorem addEvent_buffer_failure:
  assumes disj: "table_ids q \<inter> free_ids q = {}"
    and pre: "table_ids q \<union> free_ids q = prefix_ids n"
    and room: "card (table_ids q) < 2 ^ 32"
    and nonres: "\<not> (ev_type e = kUnknown \<or> ev_type e = kSystem \<or> ev_type e = kTimer)"
    and fail: "\<not> fst (buf_addEvent ops (fst (saveEvent e q)) (m_buffer q))"
  shows "m_events (addEvent ops e q) = m_events q \<and>
         m_oldEventIDs (addEvent ops e q) =
           (if m_oldEventIDs q = [] then [fst (saveEvent e q)] else m_oldEventIDs q) \<and>
         last (m_oldEventIDs (addEvent ops e q)) = fst (saveEvent e q) \<and>
         deleteData_calls (addEvent ops e q) = deleteData_calls q @ [e]"
proof -
  have fresh: "fst (saveEvent e q) \<notin> table_ids q"
    using saveEvent_fresh [OF disj pre room] .
  have "m_oldEventIDs q \<noteq> [] \<Longrightarrow> fst (saveEvent e q) = last (m_oldEventIDs q)"
    by (simp add: saveEvent_def Let_def)
  then show ?thesis
    using addEvent_refused [OF nonres fail fresh] by auto
qed

lemma prefix_ids_small: "prefix_ids 1 = {0}" "prefix_ids 2 = {1, 0}"
proof -
  have 0: "prefix_ids 0 = {}" by (simp add: prefix_ids_def)
  have "prefix_ids (Suc 0) = insert (of_nat 0) (prefix_ids 0)"
    by (rule prefix_ids_Suc) simp
  then show 1: "prefix_ids 1 = {0}" using 0 by simp
  have "prefix_ids (Suc 1) = insert (of_nat 1) (prefix_ids 1)"
    by (rule prefix_ids_Suc) simp
  then show "prefix_ids 2 = {1, 0}" using 1 by (simp add: numeral_2_eq_2)
qed

lemma busy_queue_eq:
  "m_events busy_queue = [0 \<mapsto> event_b]" "m_oldEventIDs busy_queue = []"
  "m_buffer busy_queue = full_buffer\<lparr>tb_timers := 1\<rparr>"
  "deleteData_calls busy_queue = []"
  "m_handlers busy_queue = [(kLast, 7) \<mapsto> 200, (kUnknown, 7) \<mapsto> 100]"
  "m_typeMap busy_queue = [kLast \<mapsto> ''x'']"
  "map t_timer (m_timerQueue busy_queue) = [1]"
  by (simp_all add: busy_queue_def saveEvent_def newTimer_def registerType_def map_insert_def
      adoptBuffer_def handled_queue_def adoptHandler_def adoptHandler_typed_def
      doAdoptHandler_def CEventQueue_new_def test_buffer_def full_buffer_def pq_push_def
      CTimer_new_def Let_def kLast_def kUnknown_def NULL_def)

lemma recycled_queue_eq:
  "m_events recycled_queue = [1 \<mapsto> event_c]" "m_oldEventIDs recycled_queue = [0]"
  "m_buffer recycled_queue = full_buffer\<lparr>tb_timers := 1\<rparr>"
  "deleteData_calls recycled_queue = []"
  by (simp_all add: recycled_queue_def saveEvent_def removeEvent_def busy_queue_eq Let_def
      fun_upd_twist)

theorem addEvent_buffer_failure_witness:
  "table_ids busy_queue \<inter> free_ids busy_queue = {} \<and>
   table_ids busy_queue \<union> free_ids busy_queue = prefix_ids 1 \<and>
   m_handlers busy_queue (kUnknown, 7) = Some 100 \<and>
   map t_timer (m_timerQueue busy_queue) = [1] \<and>
   m_events busy_queue = [0 \<mapsto> event_b] \<and>
   m_oldEventIDs busy_queue = [] \<and>
   m_events (addEvent test_buffer event_a busy_queue) = [0 \<mapsto> event_b] \<and>
   m_oldEventIDs (addEvent test_buffer event_a busy_queue) = [1] \<and>
   deleteData_calls (addEvent test_buffer event_a busy_queue) = [event_a] \<and>
   table_ids recycled_queue \<inter> free_ids recycled_queue = {} \<and>
   table_ids recycled_queue \<union> free_ids recycled_queue = prefix_ids 2 \<and>
   m_events recycled_queue = [1 \<mapsto> event_c] \<and>
   m_oldEventIDs recycled_queue = [0] \<and>
   m_events (addEvent test_buffer event_a recycled_queue) = [1 \<mapsto> event_c] \<and>
   m_oldEventIDs (addEvent test_buffer event_a recycled_queue) = [0] \<and>
   deleteData_calls (addEvent test_buffer event_a recycled_queue) = [event_a]"
proof -
  have t: "\<not> (ev_type event_a = kUnknown \<or> ev_type event_a = kSystem \<or> ev_type event_a = kTimer)"
    by (simp add: event_a_def CEvent3_def kLast_def kUnknown_def kSystem_def kTimer_def)
  have full: "\<And>i n. buf_addEvent test_buffer i (full_buffer\<lparr>tb_timers := n\<rparr>) =
      (False, full_buffer\<lparr>tb_timers := n\<rparr>)"
    by (simp add: test_buffer_def full_buffer_def)
  have b1: "table_ids busy_queue \<inter> free_ids busy_queue = {}"
    and b3: "card (table_ids busy_queue) < 2 ^ 32"
    and b4: "fst (saveEvent event_a busy_queue) = 1"
    by (simp_all add: table_ids_def free_ids_def busy_queue_eq saveEvent_def)
  have b2: "table_ids busy_queue \<union> free_ids busy_queue = prefix_ids 1"
    unfolding prefix_ids_small by (simp add: table_ids_def free_ids_def busy_queue_eq)
  have b5: "\<not> fst (buf_addEvent test_buffer (fst (saveEvent event_a busy_queue))
      (m_buffer busy_queue))"
    by (simp add: busy_queue_eq full)
  have r1: "table_ids recycled_queue \<inter> free_ids recycled_queue = {}"
    and r3: "card (table_ids recycled_queue) < 2 ^ 32"
    and r4: "fst (saveEvent event_a recycled_queue) = 0"
    by (simp_all add: table_ids_def free_ids_def recycled_queue_eq saveEvent_def)
  have r2: "table_ids recycled_queue \<union> free_ids recycled_queue = prefix_ids 2"
    unfolding prefix_ids_small
    by (simp add: table_ids_def free_ids_def recycled_queue_eq) blast
  have r5: "\<not> fst (buf_addEvent test_buffer (fst (saveEvent event_a recycled_queue))
      (m_buffer recycled_queue))"
    by (simp add: recycled_queue_eq full)
  note B = addEvent_buffer_failure [OF b1 b2 b3 t b5, unfolded b4]
  note R = addEvent_buffer_failure [OF r1 r2 r3 t r5, unfolded r4]
  have B1: "m_events (addEvent test_buffer event_a busy_queue) = [0 \<mapsto> event_b]"
      "m_oldEventIDs (addEvent test_buffer event_a busy_queue) = [1]"
      "deleteData_calls (addEvent test_buffer event_a busy_queue) = [event_a]"
    using B by (simp_all add: busy_queue_eq)
  have R1: "m_events (addEvent test_buffer event_a recycled_queue) = [1 \<mapsto> event_c]"
      "m_oldEventIDs (addEvent test_buffer event_a recycled_queue) = [0]"
      "deleteData_calls (addEvent test_buffer event_a recycled_queue) = [event_a]"
    using R by (simp_all add: recycled_queue_eq)
  show ?thesis
    by (simp add: b1 b2 r1 r2 B1 R1 busy_queue_eq recycled_queue_eq)
qed

subsection \<open>Dispatching an event\<close>

lemma null_handler_queue_handlers:
  "m_handlers null_handler_queue = [(kLast, 7) \<mapsto> NULL, (kUnknown, 7) \<mapsto> 100]"
  by (simp add: null_handler_queue_def adoptHandler_def adoptHandler_typed_def
      doAdoptHandler_def CEventQueue_new_def kLast_def kUnknown_def)

text \<open>
  C3, as the spec states it, fails when the key of the type and the target holds a null
  pointer, which \<^verbatim>\<open>adoptHandler(type, target, NULL)\<close> stores: \<^verbatim>\<open>getHandler\<close> returns
  that pointer without a look at the key of \<open>kUnknown\<close>, so that \<^verbatim>\<open>dispatchEvent\<close>
  runs nothing and returns false although a handler for any type is installed.
\<close>

theorem dispatchEvent_lookup_counterexample:
  "m_handlers null_handler_queue (ev_type event_a, ev_target event_a) = Some NULL \<and>
   m_handlers null_handler_queue (kUnknown, ev_target event_a) = Some 100 \<and>
   100 \<noteq> NULL \<and>
   dispatchEvent event_a null_handler_queue = (False, null_handler_queue)"
  by (simp add: dispatchEvent_def getHandler_def null_handler_queue_handlers event_a_def
      CEvent3_def kLast_def kUnknown_def NULL_def)

text \<open>
  C3, amended: \<^verbatim>\<open>dispatchEvent\<close> takes the pointer stored under the type and the
  target of the event when that key is in the table, and otherwise the pointer stored
  under \<open>kUnknown\<close> and the target. When the pointer it takes is not null, that handler
  is run and the result is true. When the pointer it takes is null, or neither key is
  in the table, nothing is run and the result is false; a null pointer under the key of
  the type hides a handler under \<open>kUnknown\<close>.
\<close>

theorem dispatchEvent_lookup:
  "(m_handlers q (ev_type e, ev_target e) = Some h \<and> h \<noteq> NULL \<longrightarrow>
      dispatchEvent e q = (True, q\<lparr>run_calls := run_calls q @ [(h, e)]\<rparr>)) \<and>
   (m_handlers q (ev_type e, ev_target e) = Some NULL \<longrightarrow>
      dispatchEvent e q = (False, q)) \<and>
   (m_handlers q (ev_type e, ev_target e) = None \<and>
    m_handlers q (kUnknown, ev_target e) = Some w \<and> w \<noteq> NULL \<longrightarrow>
      dispatchEvent e q = (True, q\<lparr>run_calls := run_calls q @ [(w, e)]\<rparr>)) \<and>
   (m_handlers q (ev_type e, ev_target e) = None \<and>
    m_handlers q (kUnknown, ev_target e) = Some NULL \<longrightarrow>
      dispatchEvent e q = (False, q)) \<and>
   (m_handlers q (ev_type e, ev_target e) = None \<and>
    m_handlers q (kUnknown, ev_target e) = None \<longrightarrow>
      dispatchEvent e q = (False, q))"
  by (simp add: dispatchEvent_def getHandler_def Let_def)

theorem dispatchEvent_lookup_witness:
  "dispatchEvent event_a handled_queue =
     (True, handled_queue\<lparr>run_calls := [(200, event_a)]\<rparr>) \<and>
   dispatchEvent event_c handled_queue =
     (True, handled_queue\<lparr>run_calls := [(100, event_c)]\<rparr>) \<and>
   dispatchEvent event_b handled_queue = (False, handled_queue) \<and>
   dispatchEvent event_a null_handler_queue = (False, null_handler_queue) \<and>
   dispatchEvent event_a null_wildcard_queue = (False, null_wildcard_queue)"
proof -
  have h: "m_handlers handled_queue = [(kLast, 7) \<mapsto> 200, (kUnknown, 7) \<mapsto> 100]"
    and r: "run_calls handled_queue = []"
    by (simp_all add: handled_queue_def adoptHandler_def adoptHandler_typed_def
        doAdoptHandler_def CEventQueue_new_def kLast_def kUnknown_def)
  have w: "m_handlers null_wildcard_queue = [(kUnknown, 7) \<mapsto> NULL]"
    by (simp add: null_wildcard_queue_def adoptHandler_def doAdoptHandler_def CEventQueue_new_def)
  show ?thesis
    using dispatchEvent_lookup [of handled_queue event_a 200 100]
      dispatchEvent_lookup [of handled_queue event_c 200 100]
      dispatchEvent_lookup [of handled_queue event_b 200 100]
      dispatchEvent_lookup [of null_handler_queue event_a 200 100]
      dispatchEvent_lookup [of null_wildcard_queue event_a 200 100]
    by (simp add: h r w null_handler_queue_handlers event_a_def event_b_def event_c_def
        CEvent3_def kLast_def kUnknown_def kQuit_def NULL_def)
qed

subsection \<open>Adopting a buffer\<close>

lemma three_saved:
  "m_events (snd (saveEvent event_c (snd (saveEvent event_b
      (snd (saveEvent event_a (CEventQueue_new test_buffer 0)))))))
   = [0 \<mapsto> event_a, 1 \<mapsto> event_b, 2 \<mapsto> event_c]"
  by (simp add: saveEvent_def CEventQueue_new_def Let_def)

text \<open>
  C6: \<^verbatim>\<open>adoptBuffer\<close> calls \<^verbatim>\<open>deleteData\<close> on the stored event of every key of the
  table, once for each key, leaves the table and the free stack empty, and installs the
  given buffer, or a new simple buffer when the pointer is null.
\<close>

theorem adoptBuffer_flushes:
  "deleteData_calls (adoptBuffer ops buffer q) =
     deleteData_calls q @ map (\<lambda>i. the (m_events q i)) (sorted_list_of_set (table_ids q)) \<and>
   distinct (sorted_list_of_set (table_ids q)) \<and>
   set (sorted_list_of_set (table_ids q)) = table_ids q \<and>
   m_events (adoptBuffer ops buffer q) = Map.empty \<and>
   m_oldEventIDs (adoptBuffer ops buffer q) = [] \<and>
   m_buffer (adoptBuffer ops buffer q) =
     (case buffer of None \<Rightarrow> CSimpleEventQueueBuffer ops | Some b \<Rightarrow> b)"
  by (simp add: adoptBuffer_def table_ids_def)

theorem adoptBuffer_flushes_witness:
  "deleteData_calls (adoptBuffer test_buffer (Some full_buffer)
      (snd (saveEvent event_c (snd (saveEvent event_b
         (snd (saveEvent event_a (CEventQueue_new test_buffer 0)))))))) =
     [event_a, event_b, event_c] \<and>
   m_events (adoptBuffer test_buffer (Some full_buffer)
      (snd (saveEvent event_c (snd (saveEvent event_b
         (snd (saveEvent event_a (CEventQueue_new test_buffer 0)))))))) = Map.empty \<and>
   m_oldEventIDs (adoptBuffer test_buffer (Some full_buffer)
      (snd (saveEvent event_c (snd (saveEvent event_b
         (snd (saveEvent event_a (CEventQueue_new test_buffer 0)))))))) = [] \<and>
   m_buffer (adoptBuffer test_buffer (Some full_buffer)
      (snd (saveEvent event_c (snd (saveEvent event_b
         (snd (saveEvent event_a (CEventQueue_new test_buffer 0)))))))) = full_buffer \<and>
   m_buffer (adoptBuffer test_buffer None (CEventQueue_new test_buffer 0)) =
     CSimpleEventQueueBuffer test_buffer"
proof -
  let ?q = "snd (saveEvent event_c (snd (saveEvent event_b
         (snd (saveEvent event_a (CEventQueue_new test_buffer 0))))))"
  have d: "deleteData_calls ?q = []"
    by (simp add: saveEvent_def CEventQueue_new_def Let_def)
  have k: "sorted_list_of_set (table_ids ?q) = [0, 1, 2]"
    by (simp add: table_ids_def three_saved
        sorted_list_of_set_insert_remove insort_key.simps word_le_nat_alt)
  show ?thesis
    using adoptBuffer_flushes [of test_buffer "Some full_buffer" ?q]
      adoptBuffer_flushes [of test_buffer None "CEventQueue_new test_buffer 0"]
    by (simp add: d k three_saved)
qed

subsection \<open>Registering a type once\<close>

text \<open>The invariant of the registry holds from the construction on.\<close>

lemma registry_ok_new: "registry_ok (CEventQueue_new ops now)"
  by (simp add: registry_ok_def CEventQueue_new_def)

lemma registry_ok_registerType:
  "registry_ok q \<Longrightarrow> registry_ok (snd (registerType n q))"
  by (auto simp: registry_ok_def registerType_def map_insert_def split: option.splits)

lemma registry_ok_registerTypeOnce:
  "registry_ok q \<Longrightarrow> registry_ok (snd (snd (registerTypeOnce slot n q)))"
  by (auto simp: registry_ok_def registerTypeOnce_def map_insert_def split: option.splits)

text \<open>
  C7: on a variable that holds \<open>kUnknown\<close>, \<^verbatim>\<open>registerTypeOnce\<close> returns the next
  type, which had no name, records the name under it, stores it in the variable and
  moves the next type on by one; a second call on the variable returns the same type
  and leaves the queue as the first call left it. On a variable that holds another
  type, the call returns that type and changes nothing.
\<close>

theorem registerTypeOnce_idempotent:
  "(registry_ok q \<longrightarrow>
      fst (registerTypeOnce kUnknown n q) = m_nextType q \<and>
      fst (snd (registerTypeOnce kUnknown n q)) = m_nextType q \<and>
      m_nextType q \<notin> dom (m_typeMap q) \<and>
      m_typeMap (snd (snd (registerTypeOnce kUnknown n q))) =
        (m_typeMap q)(m_nextType q \<mapsto> n) \<and>
      m_nextType (snd (snd (registerTypeOnce kUnknown n q))) = m_nextType q + 1 \<and>
      registerTypeOnce (fst (snd (registerTypeOnce kUnknown n q))) n
          (snd (snd (registerTypeOnce kUnknown n q))) =
        (m_nextType q, m_nextType q, snd (snd (registerTypeOnce kUnknown n q)))) \<and>
   (slot \<noteq> kUnknown \<longrightarrow> registerTypeOnce slot n q = (slot, slot, q))"
  by (auto simp: registerTypeOnce_def registry_ok_def map_insert_def kLast_def kUnknown_def
      split: option.splits)

theorem registerTypeOnce_idempotent_witness:
  "registry_ok (CEventQueue_new test_buffer 0) \<and>
   fst (registerTypeOnce kUnknown ''x'' (CEventQueue_new test_buffer 0)) = kLast \<and>
   registerTypeOnce (fst (snd (registerTypeOnce kUnknown ''x'' (CEventQueue_new test_buffer 0))))
       ''x'' (snd (snd (registerTypeOnce kUnknown ''x'' (CEventQueue_new test_buffer 0))))
     = (kLast, kLast, snd (snd (registerTypeOnce kUnknown ''x'' (CEventQueue_new test_buffer 0)))) \<and>
   m_nextType (snd (snd (registerTypeOnce kUnknown ''x'' (CEventQueue_new test_buffer 0)))) = 5 \<and>
   registerTypeOnce kQuit ''x'' (CEventQueue_new test_buffer 0) =
     (kQuit, kQuit, CEventQueue_new test_buffer 0)"
proof -
  have n: "m_nextType (CEventQueue_new test_buffer 0) = kLast"
    by (simp add: CEventQueue_new_def)
  show ?thesis
    using registerTypeOnce_idempotent [of "CEventQueue_new test_buffer 0" "''x''" kQuit]
      registry_ok_new [of test_buffer 0]
    by (auto simp add: n kLast_def kQuit_def kUnknown_def)
qed

subsection \<open>A buffer that yields no event\<close>

lemma getEvent_loop_infinite:
  "timeout < 0 \<Longrightarrow> getEvent_loop fuel ops timeout start now ev q \<noteq> Some (False, ev1, q1)"
proof (induction fuel arbitrary: now ev q)
  case 0
  then show ?case by simp
next
  case (Suc fuel)
  show ?case
  proof (cases "buf_isEmpty ops (m_buffer q)")
    case True
    obtain r2 ev2 q2 where h: "hasTimerExpired now ev q = (r2, ev2, q2)"
      by (cases "hasTimerExpired now ev q")
    show ?thesis
      using True h Suc.prems Suc.IH [OF Suc.prems]
      by (cases r2) (simp_all add: Let_def split: prod.splits)
  next
    case False
    obtain ty ev2 d b where g: "buf_getEvent ops ev (m_buffer q) = (ty, ev2, d, b)"
      by (cases "buf_getEvent ops ev (m_buffer q)")
    show ?thesis
      using False g Suc.prems Suc.IH [OF Suc.prems]
      by (cases ty) (simp_all add: Let_def split: prod.splits)
  qed
qed

lemma spurious_queue_buffer:
  "m_buffer spurious_queue = spurious_buffer"
  "\<not> buf_isEmpty test_buffer spurious_buffer"
  "buf_getEvent test_buffer ev spurious_buffer =
     (BufNone, ev, 0, spurious_buffer\<lparr>tb_pending := []\<rparr>)"
  by (simp_all add: spurious_queue_def adoptBuffer_def test_buffer_def spurious_buffer_def)

text \<open>
  C8, as the spec states it, fails for a timeout that has not run out: with a timeout
  of 1 second and no time elapsed, a buffer that is not empty and yields no event makes
  \<^verbatim>\<open>getEvent\<close> return false at once.
\<close>

theorem getEvent_none_verdict_counterexample:
  "buf_getEvent test_buffer CEvent_default (m_buffer spurious_queue) =
     (BufNone, CEvent_default, 0, spurious_buffer\<lparr>tb_pending := []\<rparr>) \<and>
   getEvent 3 test_buffer 1 0 CEvent_default spurious_queue =
     Some (False, CEvent_default,
           spurious_queue\<lparr>m_buffer := spurious_buffer\<lparr>tb_pending := []\<rparr>\<rparr>)"
  by (simp add: getEvent_def spurious_queue_buffer numeral_3_eq_3)

text \<open>
  C8, amended: when the buffer's \<^verbatim>\<open>getEvent\<close> yields no event, the queue goes back
  to the wait loop if the timeout is negative (infinite) or not larger than the time
  elapsed since entry, and returns false otherwise; with a negative timeout
  \<^verbatim>\<open>getEvent\<close> never returns false.
\<close>

theorem getEvent_none_verdict:
  "(\<not> buf_isEmpty ops (m_buffer q) \<and>
    buf_getEvent ops ev (m_buffer q) = (BufNone, ev1, d, b) \<longrightarrow>
      getEvent_loop (Suc fuel) ops timeout start now ev q =
        (if timeout < 0 \<or> timeout \<le> now - start
         then getEvent_loop fuel ops timeout start now ev1 (q\<lparr>m_buffer := b\<rparr>)
         else Some (False, ev1, q\<lparr>m_buffer := b\<rparr>))) \<and>
   (timeout < 0 \<longrightarrow> getEvent fuel ops timeout now ev q \<noteq> Some (False, ev2, q2))"
  using getEvent_loop_infinite [of timeout fuel ops now now ev q ev2 q2]
  by (simp add: getEvent_def)

theorem getEvent_none_verdict_witness:
  "\<not> buf_isEmpty test_buffer (m_buffer spurious_queue) \<and>
   buf_getEvent test_buffer CEvent_default (m_buffer spurious_queue) =
     (BufNone, CEvent_default, 0, spurious_buffer\<lparr>tb_pending := []\<rparr>) \<and>
   getEvent_loop (Suc 2) test_buffer (- 1) 0 0 CEvent_default spurious_queue =
     getEvent_loop 2 test_buffer (- 1) 0 0 CEvent_default
       (spurious_queue\<lparr>m_buffer := spurious_buffer\<lparr>tb_pending := []\<rparr>\<rparr>) \<and>
   getEvent_loop (Suc 2) test_buffer 0 0 0 CEvent_default spurious_queue =
     getEvent_loop 2 test_buffer 0 0 0 CEvent_default
       (spurious_queue\<lparr>m_buffer := spurious_buffer\<lparr>tb_pending := []\<rparr>\<rparr>) \<and>
   getEvent_loop (Suc 2) test_buffer 1 0 0 CEvent_default spurious_queue =
     Some (False, CEvent_default,
           spurious_queue\<lparr>m_buffer := spurious_buffer\<lparr>tb_pending := []\<rparr>\<rparr>) \<and>
   getEvent 2 test_buffer (- 1) 0 CEvent_default spurious_queue \<noteq>
     Some (False, CEvent_default, spurious_queue)"
  using getEvent_none_verdict [of test_buffer spurious_queue CEvent_default CEvent_default 0
      "spurious_buffer\<lparr>tb_pending := []\<rparr>" 2 "- 1" 0 0 CEvent_default spurious_queue]
    getEvent_none_verdict [of test_buffer spurious_queue CEvent_default CEvent_default 0
      "spurious_buffer\<lparr>tb_pending := []\<rparr>" 2 0 0 0 CEvent_default spurious_queue]
    getEvent_none_verdict [of test_buffer spurious_queue CEvent_default CEvent_default 0
      "spurious_buffer\<lparr>tb_pending := []\<rparr>" 2 1 0 0 CEvent_default spurious_queue]
  by (simp add: spurious_queue_buffer)

subsection \<open>The timer sweep\<close>

text \<open>With exact arithmetic the functions in double arithmetic are those of the
  section on timers.\<close>

lemma exact_arith_simps:
  "dadd exact_arith x y = x + y" "dsub exact_arith x y = x - y" "ddiv exact_arith x y = x / y"
  by (simp_all add: exact_arith_def)

lemma rounding_ok_exact: "rounding_ok exact_arith"
  by (simp add: rounding_ok_def exact_arith_simps)

lemma rounding_ok_rounded:
  assumes "mono rnd" "rnd 0 = 0"
  shows "rounding_ok (rounded_arith rnd)"
proof -
  have "0 \<le> rnd x" if "0 \<le> x" for x
    using monoD [OF assms(1) that] assms(2) by simp
  then show ?thesis
    using assms(1) by (simp add: rounding_ok_def rounded_arith_def monoD)
qed

lemma CTimer_minus_fp_exact: "CTimer_minus_fp exact_arith = CTimer_minus"
  by (simp add: fun_eq_iff CTimer_minus_fp_def CTimer_minus_def exact_arith_simps)

lemma fillEvent_fp_exact: "fillEvent_fp exact_arith = fillEvent"
  by (simp add: fun_eq_iff fillEvent_fp_def fillEvent_def Let_def exact_arith_simps)

lemma hasTimerExpired_fp_exact: "hasTimerExpired_fp exact_arith = hasTimerExpired"
  by (simp add: fun_eq_iff hasTimerExpired_fp_def hasTimerExpired_def CTimer_minus_fp_exact
      fillEvent_fp_exact Let_def exact_arith_simps)

lemma newTimer_fp_exact: "newTimer_fp exact_arith = newTimer"
  by (simp add: fun_eq_iff newTimer_fp_def newTimer_def Let_def exact_arith_simps)

lemma newOneShotTimer_fp_exact: "newOneShotTimer_fp exact_arith = newOneShotTimer"
  by (simp add: fun_eq_iff newOneShotTimer_fp_def newOneShotTimer_def Let_def exact_arith_simps)

lemma countdown_fp_times:
  "map t_time (countdown_fp ar now q) =
     map (\<lambda>t. dsub ar (t_time t) (dsub ar now (m_time q))) (m_timerQueue q)"
  by (simp add: countdown_fp_def CTimer_minus_fp_def)

lemma countdown_fp_timers: "map t_timer (countdown_fp ar now q) = map t_timer (m_timerQueue q)"
  by (simp add: countdown_fp_def CTimer_minus_fp_def)

lemma sorted_dsub:
  "rounding_ok ar \<Longrightarrow> sorted xs \<Longrightarrow> sorted (map (\<lambda>x. dsub ar x d) xs)"
  by (induction xs) (auto simp: rounding_ok_def)

lemma countdown_fp_sorted:
  assumes "rounding_ok ar" "sorted (map t_time (m_timerQueue q))"
  shows "sorted (map t_time (countdown_fp ar now q))"
  using sorted_dsub [OF assms, of "dsub ar now (m_time q)"]
  by (simp add: countdown_fp_times comp_def)

lemma sorted_top_least:
  "sorted (map t_time ts) \<Longrightarrow> t \<in> set ts \<Longrightarrow> t_time (pq_top ts) \<le> t_time t"
  by (cases ts) (auto simp: pq_top_def)

lemma hasTimerExpired_fp_empty:
  "m_timerQueue q = [] \<Longrightarrow> hasTimerExpired_fp ar now ev q = (False, ev, q)"
  by (simp add: hasTimerExpired_fp_def)

lemma hasTimerExpired_fp_later:
  "m_timerQueue q \<noteq> [] \<Longrightarrow> t_time (pq_top (countdown_fp ar now q)) > 0 \<Longrightarrow>
   hasTimerExpired_fp ar now ev q =
     (False, ev, q\<lparr>m_time := now, m_timerQueue := countdown_fp ar now q\<rparr>)"
  by (simp add: hasTimerExpired_fp_def countdown_fp_def Let_def)

lemma hasTimerExpired_fp_fires:
  "m_timerQueue q \<noteq> [] \<Longrightarrow> t_time (pq_top (countdown_fp ar now q)) \<le> 0 \<Longrightarrow>
   hasTimerExpired_fp ar now ev q =
     (True, CEvent3 kTimer (t_target (pq_top (countdown_fp ar now q))) TimerEventData,
      q\<lparr>m_time := now,
        m_timerEvent := fillEvent_fp ar (pq_top (countdown_fp ar now q)) (m_timerEvent q),
        m_timerQueue :=
          (if t_oneShot (pq_top (countdown_fp ar now q)) then pq_pop (countdown_fp ar now q)
           else pq_push (CTimer_reset (pq_top (countdown_fp ar now q)))
                  (pq_pop (countdown_fp ar now q)))\<rparr>)"
  by (simp add: hasTimerExpired_fp_def countdown_fp_def Let_def CTimer_reset_def)

lemma fillEvent_fp_count:
  "te_count (fillEvent_fp ar t tev) =
     (if t_time t \<le> 0
      then static_cast_UInt32 (ddiv ar (dsub ar (t_timeout t) (t_time t)) (t_timeout t)) else 0)"
  by (simp add: fillEvent_fp_def Let_def)

lemma fillEvent_fp_timer: "te_timer (fillEvent_fp ar t tev) = t_timer t"
  by (simp add: fillEvent_fp_def Let_def)

lemma static_cast_floor:
  assumes "0 \<le> x" "x < 2 ^ 32"
  shows "unat (static_cast_UInt32 x) = nat \<lfloor>x\<rfloor>"
proof -
  have "\<lfloor>x\<rfloor> < 2 ^ 32" using assms(2) by (simp add: floor_less_iff)
  moreover have "0 \<le> \<lfloor>x\<rfloor>" using assms(1) by simp
  ultimately have "nat \<lfloor>x\<rfloor> < 2 ^ 32" by (simp add: nat_less_iff)
  moreover have "static_cast_UInt32 x = of_nat (nat \<lfloor>x\<rfloor>)"
    using assms(1) by (simp add: static_cast_UInt32_def)
  ultimately show ?thesis by (simp add: unat_of_nat)
qed

lemma quotient_nonneg:
  "rounding_ok ar \<Longrightarrow> 0 < timeout \<Longrightarrow> time \<le> 0 \<Longrightarrow>
   0 \<le> ddiv ar (dsub ar timeout time) timeout"
  by (simp add: rounding_ok_def)

lemma hasTimerExpired_fp_timers:
  "set (map t_timer (m_timerQueue (snd (snd (hasTimerExpired_fp ar now ev q)))))
     \<subseteq> set (map t_timer (m_timerQueue q))"
proof (cases "m_timerQueue q")
  case Nil
  then show ?thesis by (simp add: hasTimerExpired_fp_def)
next
  case (Cons t ts)
  then show ?thesis
    by (auto simp: hasTimerExpired_fp_def Let_def pq_top_def pq_pop_def pq_push_def
        CTimer_minus_fp_def CTimer_reset_def set_insort_key)
qed

lemma sweeps_fp_timers:
  "set (map t_timer (m_timerQueue (sweeps_fp ar nows q))) \<subseteq> set (map t_timer (m_timerQueue q))"
proof (induction nows arbitrary: q)
  case Nil
  then show ?case by simp
next
  case (Cons now nows)
  show ?case
    using Cons.IH [of "snd (snd (hasTimerExpired_fp ar now CEvent_default q))"]
      hasTimerExpired_fp_timers [of ar now CEvent_default q]
    by simp
qed

lemma oneShot_fp_gone:
  assumes "m_timerQueue q \<noteq> []" "t_time (pq_top (countdown_fp ar now q)) \<le> 0"
    "t_oneShot (pq_top (countdown_fp ar now q))" "distinct (map t_timer (m_timerQueue q))"
  shows "t_timer (pq_top (countdown_fp ar now q)) \<notin>
           set (map t_timer
             (m_timerQueue (sweeps_fp ar nows (snd (snd (hasTimerExpired_fp ar now ev q))))))"
proof -
  obtain t ts where ts: "countdown_fp ar now q = t # ts"
    using assms(1) by (cases "countdown_fp ar now q") (auto simp: countdown_fp_def)
  have "distinct (map t_timer (countdown_fp ar now q))"
    using assms(4) by (simp add: countdown_fp_timers)
  then have "t_timer t \<notin> set (map t_timer ts)" using ts by simp
  moreover have "m_timerQueue (snd (snd (hasTimerExpired_fp ar now ev q))) = ts"
    using hasTimerExpired_fp_fires [OF assms(1,2)] assms(3) ts
    by (simp add: pq_top_def pq_pop_def)
  ultimately show ?thesis
    using sweeps_fp_timers [of ar nows "snd (snd (hasTimerExpired_fp ar now ev q))"] ts
    by (auto simp: pq_top_def)
qed

text \<open>The order of the timer queue holds from the construction on.\<close>

lemma timerQueue_sorted_new: "sorted (map t_time (m_timerQueue (CEventQueue_new ops now)))"
  by (simp add: CEventQueue_new_def)

lemma pq_push_sorted:
  "sorted (map t_time ts) \<Longrightarrow> sorted (map t_time (pq_push t ts))"
  by (simp add: pq_push_def sorted_insort_key)

lemma pq_pop_sorted:
  "sorted (map t_time ts) \<Longrightarrow> sorted (map t_time (pq_pop ts))"
  by (cases ts) (simp_all add: pq_pop_def)

lemma pq_erase_subset: "set (pq_erase timer ts) \<subseteq> set ts"
  by (induction ts) auto

lemma pq_erase_sorted:
  "sorted (map t_time ts) \<Longrightarrow> sorted (map t_time (pq_erase timer ts))"
proof (induction ts)
  case Nil
  then show ?case by simp
next
  case (Cons t ts)
  then show ?case using pq_erase_subset [of timer ts] by auto
qed

lemma timerQueue_sorted_newTimer:
  assumes "sorted (map t_time (m_timerQueue q))"
    "newTimer_fp ar ops now duration target q = Some (h, q1)"
  shows "sorted (map t_time (m_timerQueue q1))"
  using assms pq_push_sorted
  by (auto simp: newTimer_fp_def Let_def split: if_splits prod.splits)

lemma timerQueue_sorted_newOneShotTimer:
  assumes "sorted (map t_time (m_timerQueue q))"
    "newOneShotTimer_fp ar ops now duration target q = Some (h, q1)"
  shows "sorted (map t_time (m_timerQueue q1))"
  using assms pq_push_sorted
  by (auto simp: newOneShotTimer_fp_def Let_def split: if_splits prod.splits)

lemma timerQueue_sorted_deleteTimer:
  "sorted (map t_time (m_timerQueue q)) \<Longrightarrow>
   sorted (map t_time (m_timerQueue (deleteTimer ops timer q)))"
  by (simp add: deleteTimer_def pq_erase_sorted)

lemma timerQueue_sorted_hasTimerExpired:
  assumes "rounding_ok ar" "sorted (map t_time (m_timerQueue q))"
  shows "sorted (map t_time (m_timerQueue (snd (snd (hasTimerExpired_fp ar now ev q)))))"
proof (cases "m_timerQueue q = []")
  case True
  then show ?thesis by (simp add: hasTimerExpired_fp_empty)
next
  case ne: False
  have c: "sorted (map t_time (countdown_fp ar now q))" using countdown_fp_sorted [OF assms] .
  show ?thesis
  proof (cases "t_time (pq_top (countdown_fp ar now q)) > 0")
    case True
    then show ?thesis using hasTimerExpired_fp_later [OF ne True] c by simp
  next
    case False
    then have "t_time (pq_top (countdown_fp ar now q)) \<le> 0" by simp
    then show ?thesis
      using hasTimerExpired_fp_fires [OF ne] pq_pop_sorted [OF c] pq_push_sorted by simp
  qed
qed

lemma two_timers_eq:
  "m_timerQueue two_timers = [CTimer_new 1 4 4 1 True, CTimer_new 2 8 8 7 False]"
  "m_time two_timers = 0"
  "m_timerEvent two_timers = \<lparr>te_timer = NULL, te_count = 0\<rparr>"
  by (simp_all add: two_timers_def newTimer_fp_def newOneShotTimer_fp_def test_buffer_def
      CEventQueue_new_def pq_push_def NULL_def Let_def CTimer_new_def exact_arith_simps)

lemma two_timers_countdown:
  "countdown_fp exact_arith 12 two_timers =
     [CTimer_new 1 4 (- 8) 1 True, CTimer_new 2 8 (- 4) 7 False]"
  by (simp add: countdown_fp_def two_timers_eq CTimer_minus_fp_def CTimer_new_def
      exact_arith_simps)

lemma overdue_queue_eq:
  "m_timerQueue overdue_queue = [CTimer_new 1 (1 / 1024) (1 / 1024) 7 False]"
  "m_time overdue_queue = 0"
  "m_timerEvent overdue_queue = \<lparr>te_timer = NULL, te_count = 0\<rparr>"
  by (simp_all add: overdue_queue_def newTimer_fp_def test_buffer_def
      CEventQueue_new_def pq_push_def NULL_def Let_def CTimer_new_def exact_arith_simps)

text \<open>
  Rounding to the nearest double grows with the number rounded and keeps zero, so
  the arithmetic of the machine is among those the sweep is proved for.
\<close>

lemma round_even_bounds: "\<lfloor>x\<rfloor> \<le> round_even x" "round_even x \<le> \<lfloor>x\<rfloor> + 1"
  by (simp_all add: round_even_def)

lemma round_even_of_int [simp]: "round_even (of_int k) = k"
  by (simp add: round_even_def)

lemma round_even_mono:
  assumes "x \<le> y"
  shows "round_even x \<le> round_even y"
proof (cases "\<lfloor>x\<rfloor> = \<lfloor>y\<rfloor>")
  case True
  then show ?thesis using assms by (auto simp: round_even_def)
next
  case False
  then have "\<lfloor>x\<rfloor> + 1 \<le> \<lfloor>y\<rfloor>" using floor_mono [OF assms] by linarith
  then show ?thesis
    using round_even_bounds(2) [of x] round_even_bounds(1) [of y] by linarith
qed

lemma round_even_uminus: "round_even (- x) = - round_even x"
proof (cases "x = of_int \<lfloor>x\<rfloor>")
  case True
  then obtain k where "x = of_int k" by blast
  then have "- x = of_int (- k)" by simp
  then show ?thesis using \<open>x = of_int k\<close> by (simp only: round_even_of_int)
next
  case False
  then have f: "\<lfloor>- x\<rfloor> = - \<lfloor>x\<rfloor> - 1"
    by (metis ceiling_altdef ceiling_def diff_minus_eq_add minus_add_cancel minus_diff_eq
        of_int_floor_cancel uminus_add_conv_diff)
  show ?thesis
    unfolding round_even_def f by (auto simp: algebra_simps)
qed

lemma binary64_alt: "binary64 x = (if x = 0 then 0 else ulp x * of_int (round_even (x / ulp x)))"
  by (simp add: binary64_def ulp_def expo_def)

lemma ulp_pos: "0 < ulp x"
  by (simp add: ulp_def)

lemma ulp_uminus: "ulp (- x) = ulp x"
  by (simp add: ulp_def expo_def)

lemma binary64_uminus: "binary64 (- x) = - binary64 x"
  by (simp add: binary64_alt ulp_uminus round_even_uminus)

lemma binary64_nonneg:
  assumes "0 \<le> x"
  shows "0 \<le> binary64 x"
proof (cases "x = 0")
  case True
  then show ?thesis by (simp add: binary64_alt)
next
  case False
  have "0 \<le> x / ulp x" using assms ulp_pos [of x] by simp
  then have "round_even 0 \<le> round_even (x / ulp x)" by (rule round_even_mono)
  then have "0 \<le> round_even (x / ulp x)" using round_even_of_int [of 0] by simp
  then show ?thesis using False ulp_pos [of x] by (simp add: binary64_alt)
qed

lemma expo_mono:
  assumes "0 < x" "x \<le> y"
  shows "expo x \<le> expo y"
proof -
  have "log 2 x \<le> log 2 y" using assms by simp
  then have "\<lfloor>log 2 x\<rfloor> \<le> \<lfloor>log 2 y\<rfloor>" by (rule floor_mono)
  then show ?thesis using assms by (simp add: expo_def)
qed

lemma powr_expo_upper:
  assumes "0 < x"
  shows "x < 2 powr (of_int (expo x) + 1)"
proof -
  have "x < 2 powr (of_int \<lfloor>log 2 x\<rfloor> + 1)"
    using floor_log_eq_powr_iff [of x 2 "\<lfloor>log 2 x\<rfloor>"] assms by simp
  also have "\<dots> \<le> 2 powr (of_int (expo x) + 1)"
    using assms by (simp add: expo_def)
  finally show ?thesis .
qed

lemma powr_expo_lower:
  assumes "0 < x" "- 1022 < expo x"
  shows "2 powr (of_int (expo x)) \<le> x"
proof -
  have "expo x = \<lfloor>log 2 x\<rfloor>" using assms by (simp add: expo_def max_def split: if_splits)
  then show ?thesis
    using floor_log_eq_powr_iff [of x 2 "\<lfloor>log 2 x\<rfloor>"] assms(1) by simp
qed

lemma ulp_scale: "ulp x * 2 ^ n = 2 powr (of_int (expo x) - 52 + real n)"
  by (simp add: ulp_def powr_add powr_realpow)

lemma binary64_upper:
  assumes "0 < x"
  shows "binary64 x \<le> 2 powr (of_int (expo x) + 1)"
proof -
  have u: "ulp x * 2 ^ 53 = 2 powr (of_int (expo x) + 1)"
    using ulp_scale [of x 53] by (simp add: add.commute)
  have "x / ulp x \<le> 2 ^ 53"
    using powr_expo_upper [OF assms] u ulp_pos [of x] by (simp add: field_simps)
  then have "round_even (x / ulp x) \<le> round_even (of_int (2 ^ 53))"
    by (intro round_even_mono) simp
  then have "round_even (x / ulp x) \<le> 2 ^ 53"
    by (simp only: round_even_of_int)
  then have "of_int (round_even (x / ulp x)) \<le> (2 ^ 53 :: real)"
    by (metis of_int_le_iff of_int_numeral of_int_power)
  then have "ulp x * of_int (round_even (x / ulp x)) \<le> ulp x * 2 ^ 53"
    using ulp_pos [of x] by simp
  then show ?thesis using assms u by (simp add: binary64_alt)
qed

lemma binary64_lower:
  assumes "0 < x" "- 1022 < expo x"
  shows "2 powr (of_int (expo x)) \<le> binary64 x"
proof -
  have u: "ulp x * 2 ^ 52 = 2 powr (of_int (expo x))"
    using ulp_scale [of x 52] by simp
  have "2 ^ 52 \<le> x / ulp x"
    using powr_expo_lower [OF assms] u ulp_pos [of x] by (simp add: field_simps)
  then have "round_even (of_int (2 ^ 52)) \<le> round_even (x / ulp x)"
    by (intro round_even_mono) simp
  then have "2 ^ 52 \<le> round_even (x / ulp x)"
    by (simp only: round_even_of_int)
  then have "(2 ^ 52 :: real) \<le> of_int (round_even (x / ulp x))"
    by (metis of_int_le_iff of_int_numeral of_int_power)
  then have "ulp x * 2 ^ 52 \<le> ulp x * of_int (round_even (x / ulp x))"
    using ulp_pos [of x] by simp
  then show ?thesis using assms u by (simp add: binary64_alt)
qed

lemma binary64_mono_pos:
  assumes "0 < x" "x \<le> y"
  shows "binary64 x \<le> binary64 y"
proof (cases "expo x = expo y")
  case True
  then have u: "ulp x = ulp y" by (simp add: ulp_def)
  have "x / ulp y \<le> y / ulp y" using assms ulp_pos [of y] by (simp add: divide_right_mono)
  then have "round_even (x / ulp y) \<le> round_even (y / ulp y)" by (rule round_even_mono)
  then have "ulp y * of_int (round_even (x / ulp y)) \<le> ulp y * of_int (round_even (y / ulp y))"
    using ulp_pos [of y] by simp
  then show ?thesis using assms u by (simp add: binary64_alt)
next
  case False
  then have lt: "expo x + 1 \<le> expo y" using expo_mono [OF assms] by simp
  have y: "0 < y" using assms by simp
  have "- 1022 \<le> expo x" by (simp add: expo_def)
  then have big: "- 1022 < expo y" using lt by simp
  have "binary64 x \<le> 2 powr (of_int (expo x) + 1)" using binary64_upper [OF assms(1)] .
  also have "\<dots> \<le> 2 powr (of_int (expo y))"
    using lt by (simp del: of_int_add flip: of_int_add add: of_int_le_iff)
  also have "\<dots> \<le> binary64 y" using binary64_lower [OF y big] .
  finally show ?thesis .
qed

lemma binary64_mono: "mono binary64"
proof (rule monoI)
  fix x y :: real
  assume le: "x \<le> y"
  consider "0 < x" | "x \<le> 0" "0 \<le> y" | "y < 0" by linarith
  then show "binary64 x \<le> binary64 y"
  proof cases
    case 1
    then show ?thesis using binary64_mono_pos le by simp
  next
    case 2
    have "0 \<le> binary64 (- x)" using 2(1) by (intro binary64_nonneg) simp
    then have "binary64 x \<le> 0" by (simp add: binary64_uminus)
    then show ?thesis using binary64_nonneg [OF 2(2)] by simp
  next
    case 3
    then have "binary64 (- y) \<le> binary64 (- x)" using le by (intro binary64_mono_pos) simp_all
    then show ?thesis by (simp add: binary64_uminus)
  qed
qed

lemma binary64_zero: "binary64 0 = 0"
  by (simp add: binary64_def)

lemma rounding_ok_binary64: "rounding_ok binary64_arith"
  unfolding binary64_arith_def by (rule rounding_ok_rounded [OF binary64_mono binary64_zero])


lemma binary64_eval:
  assumes "2 powr (of_int e) \<le> \<bar>x\<bar>" "\<bar>x\<bar> < 2 powr (of_int e + 1)" "- 1022 \<le> e"
    and "round_even (x / 2 powr (of_int e - 52)) = m"
  shows "binary64 x = 2 powr (of_int e - 52) * of_int m"
proof -
  have p: "0 < \<bar>x\<bar>" using assms(1) by (smt (verit) powr_gt_zero)
  then have "\<lfloor>log 2 \<bar>x\<bar>\<rfloor> = e"
    using floor_log_eq_powr_iff [of "\<bar>x\<bar>" 2 e] assms(1,2) by simp
  then have "expo x = e" using assms(3) by (simp add: expo_def)
  then show ?thesis using p assms(4) by (simp add: binary64_alt ulp_def)
qed

text \<open>The double nearest to a number between two powers of two that follow each
  other, below and above one.\<close>

lemma powr_neg_nat: "(2::real) powr (- real n) = 1 / 2 ^ n"
  by (simp add: powr_minus powr_realpow divide_inverse)

lemma binary64_small:
  assumes "1 / 2 ^ n \<le> \<bar>x\<bar>" "\<bar>x\<bar> < 2 / 2 ^ n" "n \<le> 1022"
    and "round_even (x * 2 ^ (n + 52)) = m"
  shows "binary64 x = of_int m / 2 ^ (n + 52)"
proof -
  have e: "real_of_int (- int n) = - real n" by simp
  have 1: "(2::real) powr (real_of_int (- int n)) \<le> \<bar>x\<bar>"
    using assms(1) by (simp only: e powr_neg_nat)
  have "(2::real) powr (- real n + 1) = 2 powr (- real n) * 2 powr 1"
    by (rule powr_add)
  then have "(2::real) powr (- real n + 1) = 2 / 2 ^ n"
    by (simp add: powr_neg_nat)
  then have 2: "\<bar>x\<bar> < (2::real) powr (real_of_int (- int n) + 1)"
    using assms(2) by (simp only: e)
  have "- real n - 52 = - real (n + 52)" by simp
  then have u: "(2::real) powr (real_of_int (- int n) - 52) = 1 / 2 ^ (n + 52)"
    by (simp only: e powr_neg_nat)
  have "x / (1 / 2 ^ (n + 52)) = x * 2 ^ (n + 52)" by simp
  then have 3: "round_even (x / 2 powr (real_of_int (- int n) - 52)) = m"
    using assms(4) by (simp only: u)
  have 4: "- 1022 \<le> - int n" using assms(3) by simp
  have b: "binary64 x = 2 powr (real_of_int (- int n) - 52) * of_int m"
    using binary64_eval [OF 1 2 4 3] .
  show ?thesis unfolding b u by simp
qed

lemma binary64_large:
  assumes "2 ^ n \<le> \<bar>x\<bar>" "\<bar>x\<bar> < 2 * 2 ^ n" "n \<le> 52"
    and "round_even (x * 2 ^ (52 - n)) = m"
  shows "binary64 x = of_int m / 2 ^ (52 - n)"
proof -
  have e: "real_of_int (int n) = real n" by simp
  have p: "(2::real) powr (real n) = 2 ^ n" by (simp add: powr_realpow)
  have 1: "(2::real) powr (real_of_int (int n)) \<le> \<bar>x\<bar>"
    using assms(1) by (simp only: e p)
  have "(2::real) powr (real n + 1) = 2 powr (real n) * 2 powr 1"
    by (rule powr_add)
  then have "(2::real) powr (real n + 1) = 2 * 2 ^ n"
    by (simp add: p)
  then have 2: "\<bar>x\<bar> < (2::real) powr (real_of_int (int n) + 1)"
    using assms(2) by (simp only: e)
  have "real n - 52 = - real (52 - n)" using assms(3) by simp
  then have u: "(2::real) powr (real_of_int (int n) - 52) = 1 / 2 ^ (52 - n)"
    by (simp only: e powr_neg_nat)
  have "x / (1 / 2 ^ (52 - n)) = x * 2 ^ (52 - n)" by simp
  then have 3: "round_even (x / 2 powr (real_of_int (int n) - 52)) = m"
    using assms(4) by (simp only: u)
  have 4: "- 1022 \<le> int n" by simp
  have b: "binary64 x = 2 powr (real_of_int (int n) - 52) * of_int m"
    using binary64_eval [OF 1 2 4 3] .
  show ?thesis unfolding b u by simp
qed

text \<open>
  A timer of one tenth of a second, created at time 0 and swept at time 1. The
  timeout is the double \<open>3602879701896397 / 2 ^ 55\<close>, a little above one tenth. The
  remaining time, \<open>timeout - 1\<close>, is rounded to \<open>- (8106479329266893 / 2 ^ 53)\<close>; the
  difference \<open>timeout - remaining\<close> is rounded to 1, and the quotient \<open>1 / timeout\<close>,
  a little below 10, to 10: the count is 10, where arithmetic without rounding gives
  the quotient \<open>1 / timeout\<close> and the count 9.
\<close>

lemma tenth_eq: "tenth = 3602879701896397 / 36028797018963968"
proof -
  have "round_even (1 / 10 * 2 ^ (4 + 52)) = 7205759403792794"
    by (simp add: round_even_def)
  from binary64_small [OF _ _ _ this] show ?thesis
    by (simp add: tenth_def)
qed

lemma binary64_zero_one: "binary64 0 = 0" "binary64 1 = 1"
proof -
  show "binary64 0 = 0" by (simp add: binary64_def)
  have "round_even (1 * 2 ^ (52 - 0)) = 4503599627370496"
    by (simp add: round_even_def)
  from binary64_large [OF _ _ _ this] show "binary64 1 = 1" by simp
qed

lemma binary64_countdown:
  "binary64 (3602879701896397 / 36028797018963968 - 1) = - (8106479329266893 / 9007199254740992)"
proof -
  have "round_even ((3602879701896397 / 36028797018963968 - 1) * 2 ^ (1 + 52)) =
      - 8106479329266893"
    by (simp add: round_even_def)
  from binary64_small [OF _ _ _ this] show ?thesis by simp
qed

lemma binary64_numerator:
  "binary64 (3602879701896397 / 36028797018963968 - - (8106479329266893 / 9007199254740992)) = 1"
proof -
  have "round_even ((3602879701896397 / 36028797018963968 -
        - (8106479329266893 / 9007199254740992)) * 2 ^ (52 - 0)) = 4503599627370496"
    by (simp add: round_even_def)
  from binary64_large [OF _ _ _ this] show ?thesis by simp
qed

lemma binary64_quotient:
  "binary64 (1 / (3602879701896397 / 36028797018963968)) = 10"
proof -
  have "round_even (1 / (3602879701896397 / 36028797018963968) * 2 ^ (52 - 3)) =
      5629499534213120"
    by (simp add: round_even_def)
  from binary64_large [OF _ _ _ this] show ?thesis by simp
qed

lemma binary64_tenth: "binary64 (3602879701896397 / 36028797018963968) =
    3602879701896397 / 36028797018963968"
proof -
  have "round_even (3602879701896397 / 36028797018963968 * 2 ^ (4 + 52)) = 7205759403792794"
    by (simp add: round_even_def)
  from binary64_small [OF _ _ _ this] show ?thesis by simp
qed

lemma binary64_arith_simps:
  "dadd binary64_arith x y = binary64 (x + y)" "dsub binary64_arith x y = binary64 (x - y)"
  "ddiv binary64_arith x y = binary64 (x / y)"
  by (simp_all add: binary64_arith_def rounded_arith_def)

lemma tenth_queue_eq:
  "m_timerQueue tenth_queue = [CTimer_new 1 tenth tenth 7 False]"
  "m_time tenth_queue = 0"
  by (simp_all add: tenth_queue_def newTimer_fp_def test_buffer_def CEventQueue_new_def
      pq_push_def NULL_def Let_def CTimer_new_def binary64_arith_simps binary64_zero_one
      tenth_eq binary64_tenth)

lemma tenth_queue_countdown:
  "countdown_fp binary64_arith 1 tenth_queue =
     [CTimer_new 1 tenth (- (8106479329266893 / 9007199254740992)) 7 False]"
proof -
  have a: "dsub binary64_arith 1 0 = 1"
    by (simp add: binary64_arith_simps binary64_zero_one)
  have b: "dsub binary64_arith tenth 1 = - (8106479329266893 / 9007199254740992)"
    unfolding binary64_arith_simps tenth_eq by (rule binary64_countdown)
  show ?thesis
    by (simp add: countdown_fp_def tenth_queue_eq CTimer_minus_fp_def CTimer_new_def a b)
qed

lemma tenth_queue_quotient:
  "ddiv binary64_arith
     (dsub binary64_arith tenth (- (8106479329266893 / 9007199254740992))) tenth = 10"
proof -
  have a: "dsub binary64_arith tenth (- (8106479329266893 / 9007199254740992)) = 1"
    unfolding binary64_arith_simps tenth_eq by (rule binary64_numerator)
  have b: "ddiv binary64_arith 1 tenth = 10"
    unfolding binary64_arith_simps tenth_eq by (rule binary64_quotient)
  show ?thesis by (simp only: a b)
qed

lemma tenth_queue_exact:
  "\<lfloor>ddiv exact_arith (dsub exact_arith tenth (dsub exact_arith tenth 1)) tenth\<rfloor> = 9"
  unfolding exact_arith_simps tenth_eq by simp

text \<open>
  C4, as the spec states it, fails where the quotient does not fit the count, which
  is a 32-bit unsigned integer. A timer of 1/1024 second, created at time 0 and swept
  for the first time at time 8388608, has the remaining time \<open>1/1024 - 8388608\<close>, and
  the quotient is \<open>8388608 * 1024 = 2 ^ 33\<close>: no 32-bit count equals it (C++ leaves the
  converted value undefined; here it is 0). All the numbers of this example are
  multiples of 1/1024 below \<open>2 ^ 34\<close>, on which the arithmetic of doubles is exact.
\<close>

theorem hasTimerExpired_sweep_counterexample:
  "t_time (pq_top (countdown_fp exact_arith 8388608 overdue_queue)) = 1 / 1024 - 8388608 \<and>
   t_timeout (pq_top (countdown_fp exact_arith 8388608 overdue_queue)) = 1 / 1024 \<and>
   fst (hasTimerExpired_fp exact_arith 8388608 CEvent_default overdue_queue) \<and>
   nat \<lfloor>ddiv exact_arith (dsub exact_arith (1 / 1024) (1 / 1024 - 8388608)) (1 / 1024)\<rfloor> =
     8589934592 \<and>
   unat (te_count (m_timerEvent (snd (snd
      (hasTimerExpired_fp exact_arith 8388608 CEvent_default overdue_queue))))) = 0 \<and>
   unat (te_count (m_timerEvent (snd (snd
      (hasTimerExpired_fp exact_arith 8388608 CEvent_default overdue_queue))))) \<noteq>
     nat \<lfloor>ddiv exact_arith (dsub exact_arith (1 / 1024) (1 / 1024 - 8388608)) (1 / 1024)\<rfloor>"
proof -
  have c: "countdown_fp exact_arith 8388608 overdue_queue =
      [CTimer_new 1 (1 / 1024) (1 / 1024 - 8388608) 7 False]"
    by (simp add: countdown_fp_def overdue_queue_eq CTimer_minus_fp_def CTimer_new_def
        exact_arith_simps)
  have w: "unat (static_cast_UInt32 8589934592) = 0"
    by (simp add: static_cast_UInt32_def)
  have ne: "m_timerQueue overdue_queue \<noteq> []" by (simp add: overdue_queue_eq)
  have le: "t_time (pq_top (countdown_fp exact_arith 8388608 overdue_queue)) \<le> 0"
    by (simp add: c pq_top_def CTimer_new_def)
  show ?thesis
    using hasTimerExpired_fp_fires [OF ne le, of CEvent_default] w
    by (simp add: c pq_top_def pq_pop_def CTimer_new_def fillEvent_fp_count exact_arith_simps)
qed

text \<open>
  C4, amended: \<^verbatim>\<open>hasTimerExpired\<close> in the double arithmetic of the machine, on a timer
  queue in ascending order of remaining time. On an empty queue it returns false and
  changes nothing. Otherwise it subtracts the elapsed time of the stopwatch from the
  remaining time of every record (a rounded subtraction), which keeps the order, so the
  top is a record of least remaining time. If that time is positive it returns false.
  Otherwise it returns true with the event (Timer, target of the top record), pops the
  top record, stores its handle in the timer payload together with the count, sets
  the remaining time of the record to its timeout and pushes it back if and only if it
  is not one-shot; a one-shot timer, in a queue whose handles are distinct, is in the
  queue after no later sequence of sweeps. The count is the floor of the quotient
  \<open>(timeout - remaining) / timeout\<close>, difference and quotient as the machine rounds
  them, when the timeout is positive (the assertion of the constructor) and that
  quotient is below \<open>2 ^ 32\<close>. \<^verbatim>\<open>fillEvent\<close> on a record with positive remaining time
  stores the count 0.
\<close>

theorem hasTimerExpired_sweep:
  assumes "rounding_ok ar" and "sorted (map t_time (m_timerQueue q))"
  shows
  "(m_timerQueue q = [] \<longrightarrow> hasTimerExpired_fp ar now ev q = (False, ev, q)) \<and>
   (m_timerQueue q \<noteq> [] \<longrightarrow>
      map t_time (countdown_fp ar now q) =
        map (\<lambda>t. dsub ar (t_time t) (dsub ar now (m_time q))) (m_timerQueue q) \<and>
      sorted (map t_time (countdown_fp ar now q)) \<and>
      (\<forall>t \<in> set (countdown_fp ar now q). t_time (pq_top (countdown_fp ar now q)) \<le> t_time t) \<and>
      (t_time (pq_top (countdown_fp ar now q)) > 0 \<longrightarrow>
         hasTimerExpired_fp ar now ev q =
           (False, ev, q\<lparr>m_time := now, m_timerQueue := countdown_fp ar now q\<rparr>)) \<and>
      (t_time (pq_top (countdown_fp ar now q)) \<le> 0 \<longrightarrow>
         hasTimerExpired_fp ar now ev q =
           (True, CEvent3 kTimer (t_target (pq_top (countdown_fp ar now q))) TimerEventData,
            q\<lparr>m_time := now,
              m_timerEvent := fillEvent_fp ar (pq_top (countdown_fp ar now q)) (m_timerEvent q),
              m_timerQueue :=
                (if t_oneShot (pq_top (countdown_fp ar now q)) then pq_pop (countdown_fp ar now q)
                 else pq_push ((pq_top (countdown_fp ar now q))
                                 \<lparr>t_time := t_timeout (pq_top (countdown_fp ar now q))\<rparr>)
                        (pq_pop (countdown_fp ar now q)))\<rparr>) \<and>
         te_timer (fillEvent_fp ar (pq_top (countdown_fp ar now q)) (m_timerEvent q)) =
           t_timer (pq_top (countdown_fp ar now q)) \<and>
         (0 < t_timeout (pq_top (countdown_fp ar now q)) \<and>
          ddiv ar (dsub ar (t_timeout (pq_top (countdown_fp ar now q)))
                           (t_time (pq_top (countdown_fp ar now q))))
                  (t_timeout (pq_top (countdown_fp ar now q))) < 2 ^ 32 \<longrightarrow>
            unat (te_count (fillEvent_fp ar (pq_top (countdown_fp ar now q)) (m_timerEvent q))) =
              nat \<lfloor>ddiv ar (dsub ar (t_timeout (pq_top (countdown_fp ar now q)))
                                    (t_time (pq_top (countdown_fp ar now q))))
                           (t_timeout (pq_top (countdown_fp ar now q)))\<rfloor>) \<and>
         (t_oneShot (pq_top (countdown_fp ar now q)) \<and>
          distinct (map t_timer (m_timerQueue q)) \<longrightarrow>
            (\<forall>nows. t_timer (pq_top (countdown_fp ar now q)) \<notin>
               set (map t_timer
                 (m_timerQueue
                    (sweeps_fp ar nows (snd (snd (hasTimerExpired_fp ar now ev q)))))))))) \<and>
   (0 < t_time t \<longrightarrow> te_count (fillEvent_fp ar t tev) = 0)"
proof -
  let ?top = "pq_top (countdown_fp ar now q)"
  let ?Q = "ddiv ar (dsub ar (t_timeout ?top) (t_time ?top)) (t_timeout ?top)"
  have 1: "m_timerQueue q = [] \<longrightarrow> hasTimerExpired_fp ar now ev q = (False, ev, q)"
    by (simp add: hasTimerExpired_fp_empty)
  have 2: "sorted (map t_time (countdown_fp ar now q))"
    using countdown_fp_sorted [OF assms] .
  have 3: "\<forall>t \<in> set (countdown_fp ar now q). t_time ?top \<le> t_time t"
    using sorted_top_least [OF 2] by blast
  have 4: "0 < t_time t \<longrightarrow> te_count (fillEvent_fp ar t tev) = 0"
    by (simp add: fillEvent_fp_count)
  have 5: "unat (te_count (fillEvent_fp ar ?top (m_timerEvent q))) = nat \<lfloor>?Q\<rfloor>"
    if "t_time ?top \<le> 0" "0 < t_timeout ?top" "?Q < 2 ^ 32"
  proof -
    have "0 \<le> ?Q" using quotient_nonneg [OF assms(1) that(2) that(1)] .
    then show ?thesis
      using static_cast_floor [OF _ that(3)] that(1) by (simp add: fillEvent_fp_count)
  qed
  show ?thesis
    using 1 2 3 4 5 countdown_fp_times [of ar now q] hasTimerExpired_fp_later [of q ar now ev]
      hasTimerExpired_fp_fires [of q ar now ev] fillEvent_fp_timer
      oneShot_fp_gone [of q ar now _ ev]
    by (simp add: CTimer_reset_def)
qed

theorem hasTimerExpired_sweep_witness:
  "rounding_ok exact_arith \<and>
   sorted (map t_time (m_timerQueue two_timers)) \<and>
   hasTimerExpired_fp exact_arith 12 CEvent_default (CEventQueue_new test_buffer 0) =
     (False, CEvent_default, CEventQueue_new test_buffer 0) \<and>
   fst (hasTimerExpired_fp exact_arith 3 CEvent_default two_timers) = False \<and>
   map t_time (m_timerQueue (snd (snd (hasTimerExpired_fp exact_arith 3 CEvent_default
      two_timers)))) = [1, 5] \<and>
   fst (hasTimerExpired_fp exact_arith 12 CEvent_default two_timers) = True \<and>
   fst (snd (hasTimerExpired_fp exact_arith 12 CEvent_default two_timers)) =
     CEvent3 kTimer 1 TimerEventData \<and>
   m_timerQueue (snd (snd (hasTimerExpired_fp exact_arith 12 CEvent_default two_timers))) =
     [CTimer_new 2 8 (- 4) 7 False] \<and>
   unat (te_count (m_timerEvent (snd (snd
      (hasTimerExpired_fp exact_arith 12 CEvent_default two_timers))))) = 3 \<and>
   1 \<notin> set (map t_timer (m_timerQueue
          (sweeps_fp exact_arith [13, 30]
             (snd (snd (hasTimerExpired_fp exact_arith 12 CEvent_default two_timers)))))) \<and>
   m_timerQueue (snd (snd (hasTimerExpired_fp exact_arith 13 CEvent_default
        (snd (snd (hasTimerExpired_fp exact_arith 12 CEvent_default two_timers)))))) =
     [CTimer_new 2 8 8 7 False] \<and>
   te_count (fillEvent_fp exact_arith (CTimer_new 2 8 3 7 False)
      \<lparr>te_timer = NULL, te_count = 9\<rparr>) = 0 \<and>
   rounding_ok binary64_arith \<and>
   m_timerQueue tenth_queue = [CTimer_new 1 tenth tenth 7 False] \<and>
   t_time (pq_top (countdown_fp binary64_arith 1 tenth_queue)) =
     - (8106479329266893 / 9007199254740992) \<and>
   fst (hasTimerExpired_fp binary64_arith 1 CEvent_default tenth_queue) = True \<and>
   unat (te_count (m_timerEvent (snd (snd
      (hasTimerExpired_fp binary64_arith 1 CEvent_default tenth_queue))))) = 10"
proof -
  let ?old = "rounding_ok exact_arith \<and>
     sorted (map t_time (m_timerQueue two_timers)) \<and>
     hasTimerExpired_fp exact_arith 12 CEvent_default (CEventQueue_new test_buffer 0) =
       (False, CEvent_default, CEventQueue_new test_buffer 0) \<and>
     fst (hasTimerExpired_fp exact_arith 3 CEvent_default two_timers) = False \<and>
     map t_time (m_timerQueue (snd (snd (hasTimerExpired_fp exact_arith 3 CEvent_default
        two_timers)))) = [1, 5] \<and>
     fst (hasTimerExpired_fp exact_arith 12 CEvent_default two_timers) = True \<and>
     fst (snd (hasTimerExpired_fp exact_arith 12 CEvent_default two_timers)) =
       CEvent3 kTimer 1 TimerEventData \<and>
     m_timerQueue (snd (snd (hasTimerExpired_fp exact_arith 12 CEvent_default two_timers))) =
       [CTimer_new 2 8 (- 4) 7 False] \<and>
     unat (te_count (m_timerEvent (snd (snd
        (hasTimerExpired_fp exact_arith 12 CEvent_default two_timers))))) = 3 \<and>
     1 \<notin> set (map t_timer (m_timerQueue
            (sweeps_fp exact_arith [13, 30]
               (snd (snd (hasTimerExpired_fp exact_arith 12 CEvent_default two_timers)))))) \<and>
     m_timerQueue (snd (snd (hasTimerExpired_fp exact_arith 13 CEvent_default
          (snd (snd (hasTimerExpired_fp exact_arith 12 CEvent_default two_timers)))))) =
       [CTimer_new 2 8 8 7 False] \<and>
     te_count (fillEvent_fp exact_arith (CTimer_new 2 8 3 7 False)
        \<lparr>te_timer = NULL, te_count = 9\<rparr>) = 0"
  let ?t = "CTimer_new 2 8 3 7 False"
  let ?te = "\<lparr>te_timer = NULL, te_count = 9\<rparr>"
  let ?new = "CEventQueue_new test_buffer 0 :: TestBuffer CEventQueue"
  let ?q = "snd (snd (hasTimerExpired_fp exact_arith 12 CEvent_default two_timers))"
  let ?top = "pq_top (countdown_fp exact_arith 12 two_timers)"
  note ok = rounding_ok_exact
  have s: "sorted (map t_time (m_timerQueue two_timers))"
    by (simp add: two_timers_eq CTimer_new_def)
  have e: "sorted (map t_time (m_timerQueue ?new))" "m_timerQueue ?new = []"
    by (simp_all add: CEventQueue_new_def)
  have ne: "m_timerQueue two_timers \<noteq> []" by (simp add: two_timers_eq)
  have d: "distinct (map t_timer (m_timerQueue two_timers))"
    by (simp add: two_timers_eq CTimer_new_def)
  have c3: "countdown_fp exact_arith 3 two_timers =
      [CTimer_new 1 4 1 1 True, CTimer_new 2 8 5 7 False]"
    by (simp add: countdown_fp_def two_timers_eq CTimer_minus_fp_def CTimer_new_def
        exact_arith_simps)
  have t3: "0 < t_time (pq_top (countdown_fp exact_arith 3 two_timers))"
    by (simp add: c3 pq_top_def CTimer_new_def)
  have t12: "t_time ?top \<le> 0" "t_oneShot ?top" "0 < t_timeout ?top"
      "ddiv exact_arith (dsub exact_arith (t_timeout ?top) (t_time ?top)) (t_timeout ?top) < 2 ^ 32"
      "t_timer ?top = 1" "t_target ?top = 1"
      "pq_pop (countdown_fp exact_arith 12 two_timers) = [CTimer_new 2 8 (- 4) 7 False]"
      "\<lfloor>ddiv exact_arith (dsub exact_arith (t_timeout ?top) (t_time ?top)) (t_timeout ?top)\<rfloor> = 3"
    by (simp_all add: two_timers_countdown pq_top_def pq_pop_def CTimer_new_def
        exact_arith_simps)
  note A0 = hasTimerExpired_sweep [OF ok e(1), of 12 CEvent_default ?t ?te]
  note A3 = hasTimerExpired_sweep [OF ok s, of 3 CEvent_default ?t ?te]
  note A12 = hasTimerExpired_sweep [OF ok s, of 12 CEvent_default ?t ?te]
  have r0: "hasTimerExpired_fp exact_arith 12 CEvent_default ?new = (False, CEvent_default, ?new)"
    using A0 e(2) by simp
  have r3: "hasTimerExpired_fp exact_arith 3 CEvent_default two_timers =
      (False, CEvent_default,
       two_timers\<lparr>m_time := 3, m_timerQueue := countdown_fp exact_arith 3 two_timers\<rparr>)"
    using A3 ne t3 by simp
  have r12: "hasTimerExpired_fp exact_arith 12 CEvent_default two_timers =
      (True, CEvent3 kTimer 1 TimerEventData,
       two_timers\<lparr>m_time := 12,
         m_timerEvent := fillEvent_fp exact_arith ?top (m_timerEvent two_timers),
         m_timerQueue := [CTimer_new 2 8 (- 4) 7 False]\<rparr>)"
    using A12 ne t12(1) by (simp add: t12)
  have n12: "unat (te_count (fillEvent_fp exact_arith ?top (m_timerEvent two_timers))) = 3"
    using A12 ne t12(1) t12(3) t12(4) by (simp add: t12(8))
  have "\<forall>nows. t_timer ?top \<notin>
      set (map t_timer (m_timerQueue (sweeps_fp exact_arith nows ?q)))"
    using A12 ne t12(1) t12(2) d by blast
  then have g12: "1 \<notin> set (map t_timer (m_timerQueue (sweeps_fp exact_arith [13, 30] ?q)))"
    unfolding t12(5) by blast
  have f0: "te_count (fillEvent_fp exact_arith ?t ?te) = 0"
    using A12 by (simp add: CTimer_new_def)
  have q: "m_timerQueue ?q = [CTimer_new 2 8 (- 4) 7 False]" "m_time ?q = 12"
    by (simp_all add: r12)
  have s2: "sorted (map t_time (m_timerQueue ?q))" by (simp add: q)
  have c13: "countdown_fp exact_arith 13 ?q = [CTimer_new 2 8 (- 5) 7 False]"
    by (simp add: countdown_fp_def q CTimer_minus_fp_def CTimer_new_def exact_arith_simps)
  note A13 = hasTimerExpired_sweep [OF ok s2, of 13 CEvent_default ?t ?te]
  have r13: "m_timerQueue (snd (snd (hasTimerExpired_fp exact_arith 13 CEvent_default ?q))) =
      [CTimer_new 2 8 8 7 False]"
    using A13 by (simp add: q c13 pq_top_def pq_pop_def pq_push_def CTimer_new_def)
  let ?top10 = "pq_top (countdown_fp binary64_arith 1 tenth_queue)"
  have s10: "sorted (map t_time (m_timerQueue tenth_queue))"
    by (simp add: tenth_queue_eq CTimer_new_def)
  have ne10: "m_timerQueue tenth_queue \<noteq> []" by (simp add: tenth_queue_eq)
  have t10: "t_time ?top10 = - (8106479329266893 / 9007199254740992)"
      "t_time ?top10 \<le> 0" "0 < t_timeout ?top10"
      "ddiv binary64_arith (dsub binary64_arith (t_timeout ?top10) (t_time ?top10))
         (t_timeout ?top10) = 10"
  proof -
    have top: "?top10 = CTimer_new 1 tenth (- (8106479329266893 / 9007199254740992)) 7 False"
      by (simp add: tenth_queue_countdown pq_top_def)
    show "t_time ?top10 = - (8106479329266893 / 9007199254740992)"
      by (simp add: top CTimer_new_def)
    then show "t_time ?top10 \<le> 0" by simp
    show "0 < t_timeout ?top10" by (simp add: top CTimer_new_def tenth_eq)
    have "t_timeout ?top10 = tenth" by (simp add: top CTimer_new_def)
    then show "ddiv binary64_arith (dsub binary64_arith (t_timeout ?top10) (t_time ?top10))
         (t_timeout ?top10) = 10"
      using \<open>t_time ?top10 = - (8106479329266893 / 9007199254740992)\<close>
      by (simp only: tenth_queue_quotient)
  qed
  note A10 = hasTimerExpired_sweep [OF rounding_ok_binary64 s10, of 1 CEvent_default ?t ?te]
  have r10: "hasTimerExpired_fp binary64_arith 1 CEvent_default tenth_queue =
      (True, CEvent3 kTimer (t_target ?top10) TimerEventData,
       tenth_queue\<lparr>m_time := 1,
         m_timerEvent := fillEvent_fp binary64_arith ?top10 (m_timerEvent tenth_queue),
         m_timerQueue :=
           (if t_oneShot ?top10 then pq_pop (countdown_fp binary64_arith 1 tenth_queue)
            else pq_push (?top10\<lparr>t_time := t_timeout ?top10\<rparr>)
                   (pq_pop (countdown_fp binary64_arith 1 tenth_queue)))\<rparr>)"
    using A10 ne10 t10(2) by blast
  have "unat (te_count (fillEvent_fp binary64_arith ?top10 (m_timerEvent tenth_queue))) =
      nat \<lfloor>ddiv binary64_arith (dsub binary64_arith (t_timeout ?top10) (t_time ?top10))
         (t_timeout ?top10)\<rfloor>"
    using A10 ne10 t10(2) t10(3) by (simp add: t10(4))
  then have n10: "unat (te_count (fillEvent_fp binary64_arith ?top10 (m_timerEvent tenth_queue)))
      = 10"
    by (simp add: t10(4))
  have w10: "fst (hasTimerExpired_fp binary64_arith 1 CEvent_default tenth_queue) = True"
      "unat (te_count (m_timerEvent (snd (snd
         (hasTimerExpired_fp binary64_arith 1 CEvent_default tenth_queue))))) = 10"
    by (simp_all add: r10 n10)
  have old: "?old"
    using ok s r0 r3 r12 n12 g12 f0 r13 by (simp add: c3 CTimer_new_def)
  show ?thesis
    using old rounding_ok_binary64 t10(1) w10 by (simp add: tenth_queue_eq)
qed

subsection \<open>A timer that expires exactly on time\<close>

lemma static_cast_one: "static_cast_UInt32 1 = 1"
  by (simp add: static_cast_UInt32_def)

lemma timer_queue_eq:
  "m_timerQueue timer_queue = [CTimer_new 1 5 5 7 False]" "m_time timer_queue = 0"
  by (simp_all add: timer_queue_def newTimer_def test_buffer_def CEventQueue_new_def pq_push_def
      NULL_def Let_def)

text \<open>
  C9, as the spec states it, fails: a timer of 5 seconds created at time 0 and swept at
  time 5 has remaining time exactly 0, the test \<^verbatim>\<open>m_time <= 0.0\<close> holds, and the
  count is \<open>(5 - 0) / 5 = 1\<close>.
\<close>

theorem timer_count_at_zero_counterexample:
  "m_timerQueue timer_queue = [CTimer_new 1 5 5 7 False] \<and>
   t_time (CTimer_minus (5 - m_time timer_queue) (CTimer_new 1 5 5 7 False)) = 0 \<and>
   fst (hasTimerExpired 5 CEvent_default timer_queue) \<and>
   te_count (m_timerEvent (snd (snd (hasTimerExpired 5 CEvent_default timer_queue)))) = 1 \<and>
   te_count (m_timerEvent (snd (snd (hasTimerExpired 5 CEvent_default timer_queue)))) \<noteq> 0"
  by (simp add: timer_queue_eq hasTimerExpired_def fillEvent_def pq_top_def pq_pop_def
      CTimer_minus_def CTimer_reset_def CTimer_new_def Let_def static_cast_one)

text \<open>
  C9, amended: when the sweep pops a timer record whose remaining time is exactly 0
  (and whose timeout is not 0), the count stored in the timer payload is 1.
\<close>

theorem timer_count_at_zero:
  "(t_time t = 0 \<and> t_timeout t \<noteq> 0 \<longrightarrow> te_count (fillEvent t tev) = 1) \<and>
   (m_timerQueue q \<noteq> [] \<and>
    t_time (pq_top (m_timerQueue q)) - (now - m_time q) = 0 \<and>
    t_timeout (pq_top (m_timerQueue q)) \<noteq> 0 \<longrightarrow>
      fst (hasTimerExpired now ev q) \<and>
      te_count (m_timerEvent (snd (snd (hasTimerExpired now ev q)))) = 1)"
  by (simp add: hasTimerExpired_def fillEvent_def pq_top_def pq_pop_def hd_map CTimer_minus_def
      CTimer_reset_def Let_def static_cast_one)

theorem timer_count_at_zero_witness:
  "t_time (CTimer_new 1 5 0 7 False) = 0 \<and> t_timeout (CTimer_new 1 5 0 7 False) \<noteq> 0 \<and>
   te_count (fillEvent (CTimer_new 1 5 0 7 False) \<lparr>te_timer = NULL, te_count = 9\<rparr>) = 1 \<and>
   m_timerQueue timer_queue \<noteq> [] \<and>
   t_time (pq_top (m_timerQueue timer_queue)) - (5 - m_time timer_queue) = 0 \<and>
   fst (hasTimerExpired 5 CEvent_default timer_queue) \<and>
   te_count (m_timerEvent (snd (snd (hasTimerExpired 5 CEvent_default timer_queue)))) = 1"
  using timer_count_at_zero [of "CTimer_new 1 5 0 7 False" "\<lparr>te_timer = NULL, te_count = 9\<rparr>"
      timer_queue 5 CEvent_default]
  by (simp add: timer_queue_eq pq_top_def CTimer_new_def)

subsection \<open>The member functions that only read\<close>

text \<open>
  C10: \<^verbatim>\<open>isEmpty\<close>, \<^verbatim>\<open>getNextTimerTimeout\<close> and \<^verbatim>\<open>getHandler\<close> return the queue
  as they got it. \<^verbatim>\<open>getNextTimerTimeout\<close> and \<^verbatim>\<open>isEmpty\<close> do not depend on the
  stopwatch: they report a timer as due exactly when the stored remaining time of the
  top record, as the last sweep left it, is at most 0.
\<close>

theorem const_functions_frame:
  "snd (isEmpty ops q) = q \<and>
   snd (getNextTimerTimeout q) = q \<and>
   snd (getHandler type target q) = q \<and>
   fst (getNextTimerTimeout (q\<lparr>m_time := c\<rparr>)) = fst (getNextTimerTimeout q) \<and>
   fst (isEmpty ops (q\<lparr>m_time := c\<rparr>)) = fst (isEmpty ops q) \<and>
   (fst (getNextTimerTimeout q) = 0 \<longleftrightarrow>
      m_timerQueue q \<noteq> [] \<and> t_time (pq_top (m_timerQueue q)) \<le> 0) \<and>
   (fst (isEmpty ops q) \<longleftrightarrow>
      buf_isEmpty ops (m_buffer q) \<and>
      \<not> (m_timerQueue q \<noteq> [] \<and> t_time (pq_top (m_timerQueue q)) \<le> 0))"
  by (auto simp: isEmpty_def getNextTimerTimeout_def getHandler_def split: option.splits)

theorem const_functions_frame_witness:
  "snd (isEmpty test_buffer timer_queue) = timer_queue \<and>
   snd (getNextTimerTimeout timer_queue) = timer_queue \<and>
   snd (getHandler kQuit 7 timer_queue) = timer_queue \<and>
   fst (getNextTimerTimeout (timer_queue\<lparr>m_time := - 10\<rparr>)) = 5 \<and>
   fst (getNextTimerTimeout timer_queue) = 5 \<and>
   fst (isEmpty test_buffer timer_queue) \<and>
   fst (hasTimerExpired 10 CEvent_default timer_queue)"
proof -
  have t: "fst (getNextTimerTimeout timer_queue) = 5"
    by (simp add: getNextTimerTimeout_def timer_queue_eq pq_top_def CTimer_new_def)
  have b: "buf_isEmpty test_buffer (m_buffer timer_queue)"
    by (simp add: timer_queue_def newTimer_def test_buffer_def CEventQueue_new_def Let_def)
  have h: "fst (hasTimerExpired 10 CEvent_default timer_queue)"
    by (simp add: timer_queue_eq hasTimerExpired_def pq_top_def CTimer_minus_def CTimer_new_def
        Let_def)
  show ?thesis
    using const_functions_frame [of test_buffer timer_queue kQuit 7 "- 10"] t b h
    by (simp add: timer_queue_eq pq_top_def CTimer_new_def)
qed

end
